theory Spec2Isabelle
  imports
    Complex_Main
    "HOL-Library.List_Lexorder"
    "HOL-Library.Char_ord"
    "HOL-Library.Product_Lexorder"
    "HOL-Library.Sublist"
    "HOL-Library.Multiset"
begin

section \<open>JavaScript values\<close>

text \<open>
  A JavaScript number is an IEEE 754 double: \<open>NaN\<close>, one of the two infinities, or a
  finite value, held here as the rational it denotes. Every arithmetic operation computes
  the exact result and rounds it to the nearest double, ties to the even mantissa, and to
  an infinity beyond the largest double. The two zeros are not told apart: they differ
  under division by zero only, which the service does not do. The operations are defined
  on every rational operand; what they return is a double.
\<close>

datatype number = NaN | PosInf | NegInf | Num rat

subsection \<open>Rounding to the nearest double\<close>

fun ilog2 :: "nat \<Rightarrow> nat" where
  "ilog2 n = (if n < 2 then 0 else Suc (ilog2 (n div 2)))"

declare ilog2.simps [simp del]

text \<open>The binary exponent of a positive rational: the \<open>e\<close> with \<open>2^e \<le> a < 2^(e+1)\<close>.\<close>

definition expo :: "rat \<Rightarrow> int" where
  "expo a =
     (if 1 \<le> a then int (ilog2 (nat \<lfloor>a\<rfloor>))
      else - int (Suc (ilog2 (nat \<lceil>1 / a\<rceil> - 1))))"

definition pow2 :: "int \<Rightarrow> rat" where
  "pow2 e = (if 0 \<le> e then 2 ^ nat e else 1 / 2 ^ nat (- e))"

definition round_half_even :: "rat \<Rightarrow> int" where
  "round_half_even x =
     (let f = \<lfloor>x\<rfloor>; d = x - of_int f
      in if d < 1 / 2 then f else if 1 / 2 < d then f + 1 else if even f then f else f + 1)"

text \<open>
  A double has 53 bits of mantissa and exponents from \<open>-1022\<close> (below which the
  spacing stays that of the subnormals, \<open>2^(-1074)\<close>) to 1023.
\<close>

definition round_double :: "rat \<Rightarrow> number" where
  "round_double r =
     (if r = 0 then Num 0
      else (let a = \<bar>r\<bar>;
                q = pow2 (max (expo a) (- 1022) - 52);
                v = of_int (round_half_even (a / q)) * q
            in if 2 ^ 1024 \<le> v then (if 0 < r then PosInf else NegInf)
               else Num (if 0 < r then v else - v)))"

subsection \<open>Operations\<close>

text \<open>The comparisons \<open>x < 0\<close> and \<open>x >= 0\<close>, both false on \<open>NaN\<close>.\<close>

fun negative :: "number \<Rightarrow> bool" where
  "negative (Num r) = (r < 0)"
| "negative NegInf = True"
| "negative _ = False"

fun non_negative :: "number \<Rightarrow> bool" where
  "non_negative (Num r) = (0 \<le> r)"
| "non_negative PosInf = True"
| "non_negative _ = False"

text \<open>\<open>Number.isFinite\<close>.\<close>

fun isFinite :: "number \<Rightarrow> bool" where
  "isFinite (Num r) = True"
| "isFinite _ = False"

fun js_neg :: "number \<Rightarrow> number" where
  "js_neg (Num a) = Num (- a)"
| "js_neg PosInf = NegInf"
| "js_neg NegInf = PosInf"
| "js_neg NaN = NaN"

fun js_add :: "number \<Rightarrow> number \<Rightarrow> number" where
  "js_add (Num a) (Num b) = round_double (a + b)"
| "js_add NaN _ = NaN"
| "js_add _ NaN = NaN"
| "js_add PosInf NegInf = NaN"
| "js_add NegInf PosInf = NaN"
| "js_add PosInf _ = PosInf"
| "js_add _ PosInf = PosInf"
| "js_add NegInf _ = NegInf"
| "js_add _ NegInf = NegInf"

definition js_sub :: "number \<Rightarrow> number \<Rightarrow> number" where
  "js_sub a b = js_add a (js_neg b)"

fun js_mul :: "number \<Rightarrow> number \<Rightarrow> number" where
  "js_mul (Num a) (Num b) = round_double (a * b)"
| "js_mul NaN _ = NaN"
| "js_mul _ NaN = NaN"
| "js_mul x y =
     (if x = Num 0 \<or> y = Num 0 then NaN
      else if negative x = negative y then PosInf else NegInf)"

text \<open>
  The quotient \<open>x / 100\<close>: the only division of the service has the literal 100 as its
  divisor.
\<close>

fun js_div100 :: "number \<Rightarrow> number" where
  "js_div100 (Num a) = round_double (a / 100)"
| "js_div100 x = x"

text \<open>\<open>Math.max\<close> of two arguments: \<open>NaN\<close> as soon as one of them is.\<close>

fun Math_max :: "number \<Rightarrow> number \<Rightarrow> number" where
  "Math_max (Num a) (Num b) = Num (max a b)"
| "Math_max NaN _ = NaN"
| "Math_max _ NaN = NaN"
| "Math_max PosInf _ = PosInf"
| "Math_max _ PosInf = PosInf"
| "Math_max NegInf y = y"
| "Math_max x NegInf = x"

text \<open>Truthiness of a number, and \<open>a || b\<close> on numbers: \<open>NaN\<close> and zero are falsy.\<close>

fun truthy :: "number \<Rightarrow> bool" where
  "truthy NaN = False"
| "truthy (Num r) = (r \<noteq> 0)"
| "truthy _ = True"

definition js_or :: "number \<Rightarrow> number \<Rightarrow> number" where
  "js_or a b = (if truthy a then a else b)"

text \<open>
  The values a document field can hold as far as \<open>Number(..)\<close> is defined on them without the
  grammar of numeric strings: a missing field reads as \<open>undefined\<close>, and a map (a plain
  object) converts to \<open>NaN\<close> whatever it holds. String-valued fields are not modelled.
\<close>

datatype js_value = Undefined | JNull | JBool bool | JNum number | JMap

fun Number :: "js_value \<Rightarrow> number" where
  "Number Undefined = NaN"
| "Number JNull = Num 0"
| "Number (JBool b) = Num (if b then 1 else 0)"
| "Number (JNum n) = n"
| "Number JMap = NaN"

subsection \<open>Strings\<close>

fun decimal :: "nat \<Rightarrow> string" where
  "decimal n =
     (if n < 10 then [''0123456789'' ! n]
      else decimal (n div 10) @ [''0123456789'' ! (n mod 10)])"

declare decimal.simps [simp del]

text \<open>
  \<open>toString\<close> of a number prints the shortest decimal digits that round back to it: the
  least \<open>k\<close> for which some \<open>s\<close> of \<open>k\<close> digits and some \<open>n\<close> have \<open>s * 10^(n-k)\<close>
  round to the number, and among such \<open>s\<close> the closest. \<open>candidate x k\<close> looks for it
  among the two decimals of \<open>k\<close> digits around \<open>x\<close>.
\<close>

definition pow10 :: "int \<Rightarrow> rat" where
  "pow10 e = (if 0 \<le> e then 10 ^ nat e else 1 / 10 ^ nat (- e))"

text \<open>The decimal exponent of a positive rational: the \<open>n\<close> with \<open>10^(n-1) \<le> x < 10^n\<close>.\<close>

definition dec_exponent :: "rat \<Rightarrow> int" where
  "dec_exponent x =
     (if 1 \<le> x then int (length (decimal (nat \<lfloor>x\<rfloor>)))
      else 1 - int (length (decimal (nat \<lceil>1 / x\<rceil> - 1))))"

definition candidate :: "rat \<Rightarrow> nat \<Rightarrow> (int \<times> int) option" where
  "candidate x k =
     (let n = dec_exponent x;
          u = pow10 (n - int k);
          lo = \<lfloor>x / u\<rfloor>;
          hi = lo + 1;
          ok_lo = (round_double (of_int lo * u) = Num x);
          ok_hi = (round_double (of_int hi * u) = Num x);
          d_lo = x - of_int lo * u;
          d_hi = of_int hi * u - x;
          s = (if ok_lo \<and> ok_hi
               then (if d_lo < d_hi then lo else if d_hi < d_lo then hi
                     else if even lo then lo else hi)
               else if ok_lo then lo else hi)
      in if ok_lo \<or> ok_hi
         then Some (if s = 10 ^ k then (10 ^ (k - 1), n + 1) else (s, n))
         else None)"

text \<open>
  Seventeen digits tell any two doubles apart; the last case is there for a rational that
  is no double, which no operation returns.
\<close>

definition shortest_digits :: "rat \<Rightarrow> int \<times> int" where
  "shortest_digits x =
     (case List.map_filter (candidate x) [1 ..< 18] of
        c # _ \<Rightarrow> c
      | [] \<Rightarrow> (\<lfloor>x / pow10 (dec_exponent x - 17)\<rfloor>, dec_exponent x))"

definition format_digits :: "string \<Rightarrow> int \<Rightarrow> string" where
  "format_digits ds n =
     (let k = int (length ds)
      in if k \<le> n \<and> n \<le> 21 then ds @ replicate (nat (n - k)) (CHR ''0'')
         else if 0 < n \<and> n \<le> 21 then take (nat n) ds @ ''.'' @ drop (nat n) ds
         else if - 6 < n \<and> n \<le> 0 then ''0.'' @ replicate (nat (- n)) (CHR ''0'') @ ds
         else (if k = 1 then ds else take 1 ds @ ''.'' @ drop 1 ds) @ ''e'' @
              (if n - 1 < 0 then ''-'' else ''+'') @ decimal (nat \<bar>n - 1\<bar>))"

text \<open>
  An integer up to \<open>2^53\<close> prints its own digits: the doubles around it are at least
  \<open>1/2\<close> away, so no decimal of fewer digits rounds to it. The definition takes this case
  first.
\<close>

definition toString_pos :: "rat \<Rightarrow> string" where
  "toString_pos x =
     (if of_int \<lfloor>x\<rfloor> = x \<and> x \<le> 2 ^ 53 then decimal (nat \<lfloor>x\<rfloor>)
      else (case shortest_digits x of (s, n) \<Rightarrow> format_digits (decimal (nat s)) n))"

definition toString :: "number \<Rightarrow> string" where
  "toString n =
     (case n of
        NaN \<Rightarrow> ''NaN''
      | PosInf \<Rightarrow> ''Infinity''
      | NegInf \<Rightarrow> ''-Infinity''
      | Num r \<Rightarrow> if r < 0 then ''-'' @ toString_pos (- r) else toString_pos r)"

definition padStart :: "nat \<Rightarrow> char \<Rightarrow> string \<Rightarrow> string" where
  "padStart n c s = replicate (n - length s) c @ s"

text \<open>\<open>s.slice(-n)\<close>: the last \<open>n\<close> characters, the whole string when it is shorter.\<close>

definition slice_last :: "nat \<Rightarrow> string \<Rightarrow> string" where
  "slice_last n s = drop (length s - n) s"

definition str_includes :: "string \<Rightarrow> string \<Rightarrow> bool" where
  "str_includes s t = sublist t s"

section \<open>Data model\<close>

type_synonym doc_id = string

datatype discount_type = Fixed | Percentage

record 'n item =
  description :: string
  quantity :: 'n
  price :: 'n
  total :: 'n

record invoice =
  invoiceNumber :: string
  invoiceDate :: string
  customerName :: string
  customerAddress :: string
  customerPhone :: string
  currencySymbol :: string
  subTotal :: number
  discountType :: discount_type
  discountValue :: number
  discountAmount :: number
  grandTotal :: number
  createdAt :: int
  userId :: string

record counter_data =
  lastInvoiceNumber :: js_value

text \<open>
  \<open>createdAt\<close> is the millisecond count of the stored \<open>Timestamp\<close>: what \<open>Timestamp.now()\<close>
  holds, and what both branches of the comparator of \<open>getInvoices\<close> read
  (\<open>toMillis()\<close>, \<open>getTime()\<close>).

  What is thrown: \<open>new Error(message)\<close> by the service, and the errors of the store, which
  carry a code as well.
\<close>

datatype error = Error string | FirestoreError string string

fun code :: "error \<Rightarrow> string option" where
  "code (Error m) = None"
| "code (FirestoreError c m) = Some c"

fun message :: "error \<Rightarrow> string" where
  "message (Error m) = m"
| "message (FirestoreError c m) = m"

section \<open>The document store\<close>

text \<open>
  The collection \<open>invoices\<close>, the subcollection \<open>items\<close> of every invoice and the document
  \<open>counters/invoices\<close>. A collection is the list of its documents in the order in which
  the store enumerates them, which is by ascending document id.
\<close>

record store =
  invoices :: "(doc_id \<times> invoice) list"
  items :: "doc_id \<Rightarrow> (doc_id \<times> number item) list"
  counter :: "counter_data option"

text \<open>\<open>set\<close>: writes the document, replacing the one of the same id if there is one.\<close>

fun set_doc :: "doc_id \<Rightarrow> 'a \<Rightarrow> (doc_id \<times> 'a) list \<Rightarrow> (doc_id \<times> 'a) list" where
  "set_doc k v [] = [(k, v)]"
| "set_doc k v ((k', v') # ds) =
     (if k = k' then (k, v) # ds
      else if k < k' then (k, v) # (k', v') # ds
      else (k', v') # set_doc k v ds)"

definition delete_doc :: "doc_id \<Rightarrow> (doc_id \<times> 'a) list \<Rightarrow> (doc_id \<times> 'a) list" where
  "delete_doc k ds = filter (\<lambda>d. fst d \<noteq> k) ds"

definition update_doc :: "doc_id \<Rightarrow> ('a \<Rightarrow> 'a) \<Rightarrow> (doc_id \<times> 'a) list \<Rightarrow> (doc_id \<times> 'a) list" where
  "update_doc k f ds = map (\<lambda>d. if fst d = k then (fst d, f (snd d)) else d) ds"

text \<open>
  Every awaited call of the store either is answered from the documents or rejects; the
  \<open>fault\<close> of a call is the error it rejects with, \<open>None\<close> when it is answered.
\<close>

definition getDoc :: "error option \<Rightarrow> (doc_id \<times> 'a) list \<Rightarrow> doc_id \<Rightarrow> error + 'a option" where
  "getDoc fault ds k = (case fault of Some e \<Rightarrow> Inl e | None \<Rightarrow> Inr (map_of ds k))"

definition getDocs :: "error option \<Rightarrow> (doc_id \<times> 'a) list \<Rightarrow> error + (doc_id \<times> 'a) list" where
  "getDocs fault ds = (case fault of Some e \<Rightarrow> Inl e | None \<Rightarrow> Inr ds)"

text \<open>
  The queries of the service. A query with equality filters only returns the matching
  documents in the order of the collection. \<open>orderBy('createdAt', 'desc')\<close> returns them by
  decreasing \<open>createdAt\<close>; the store orders documents of equal \<open>createdAt\<close> by their id, in
  the direction of the last ordering of the query, here decreasing as well.
\<close>

definition where_userId :: "string \<Rightarrow> (doc_id \<times> invoice) list \<Rightarrow> (doc_id \<times> invoice) list" where
  "where_userId uid ds = filter (\<lambda>d. userId (snd d) = uid) ds"

definition where_invoiceNumber :: "string \<Rightarrow> (doc_id \<times> invoice) list \<Rightarrow> (doc_id \<times> invoice) list" where
  "where_invoiceNumber n ds = filter (\<lambda>d. invoiceNumber (snd d) = n) ds"

definition orderBy_createdAt_desc :: "(doc_id \<times> invoice) list \<Rightarrow> (doc_id \<times> invoice) list" where
  "orderBy_createdAt_desc ds = rev (sort_key (\<lambda>d. (createdAt (snd d), fst d)) ds)"

section \<open>The invoice service\<close>

subsection \<open>createInvoice\<close>

text \<open>
  What a call of \<open>createInvoice\<close> takes from its surroundings: the year of the wall clock,
  \<open>Timestamp.now()\<close>, the ids that \<open>doc(collection(..))\<close> generates (number 0 for the
  invoice, number \<open>i + 1\<close> for its \<open>i\<close>-th item), and the error with which
  \<open>runTransaction\<close> rejects, if it does: a failed read, a rejected write, or conflicts
  beyond the retries of the store. A transaction that commits has run its function on the
  documents as they are at the commit, and its writes are applied together; one that
  rejects writes nothing.
\<close>

record env =
  currentYear :: nat
  now :: int
  autoId :: "nat \<Rightarrow> doc_id"
  txn_fault :: "error option"

definition calculatedItems :: "js_value item list \<Rightarrow> number item list" where
  "calculatedItems its =
     map (\<lambda>it. \<lparr> description = description it,
                 quantity = js_or (Number (quantity it)) (Num 0),
                 price = js_or (Number (price it)) (Num 0),
                 total = js_mul (js_or (Number (quantity it)) (Num 0))
                                (js_or (Number (price it)) (Num 0)) \<rparr>) its"

definition calc_subTotal :: "number item list \<Rightarrow> number" where
  "calc_subTotal citems = foldl (\<lambda>acc curr. js_add acc (total curr)) (Num 0) citems"

definition calc_discountAmount :: "discount_type \<Rightarrow> number \<Rightarrow> number \<Rightarrow> number" where
  "calc_discountAmount dType dValue sub =
     (if dType = Percentage then js_mul sub (js_div100 dValue) else dValue)"

definition calc_grandTotal :: "number \<Rightarrow> number \<Rightarrow> number" where
  "calc_grandTotal sub dAmount = Math_max (Num 0) (js_sub sub dAmount)"

text \<open>Lines 50 to 59: the next number and the invoice number minted from it.\<close>

definition nextNumber :: "counter_data option \<Rightarrow> number" where
  "nextNumber counterDoc =
     (case counterDoc of
        None \<Rightarrow> Num 1
      | Some d \<Rightarrow> js_add (js_or (Number (lastInvoiceNumber d)) (Num 0)) (Num 1))"

text \<open>The number that lines 52 to 55 take as the last one issued.\<close>

definition lastIssued :: "counter_data option \<Rightarrow> number" where
  "lastIssued counterDoc =
     (case counterDoc of
        None \<Rightarrow> Num 0
      | Some d \<Rightarrow> js_or (Number (lastInvoiceNumber d)) (Num 0))"

definition mintNumber :: "nat \<Rightarrow> number \<Rightarrow> string" where
  "mintNumber year n =
     (let currentYearShort = slice_last 2 (decimal year);
          paddedNumber = padStart 3 (CHR ''0'') (toString n)
      in ''BILL/'' @ currentYearShort @ ''/'' @ paddedNumber)"

definition rupee :: string where
  "rupee = [CHR 0xE2, CHR 0x82, CHR 0xB9]"

definition set_items :: "(nat \<Rightarrow> doc_id) \<Rightarrow> number item list \<Rightarrow> (doc_id \<times> number item) list
    \<Rightarrow> (doc_id \<times> number item) list" where
  "set_items ids citems ds = fold (\<lambda>(i, it). set_doc (ids (Suc i)) it) (enumerate 0 citems) ds"

definition createInvoice ::
  "env \<Rightarrow> store \<Rightarrow> string \<Rightarrow> string \<Rightarrow> string \<Rightarrow> js_value item list \<Rightarrow> discount_type \<Rightarrow> number
    \<Rightarrow> string option \<Rightarrow> string option \<Rightarrow> string option \<Rightarrow> (error + doc_id) \<times> store" where
  "createInvoice e st uid cName iDate its dType dValue cAddress cPhone cSymbol =
     (let citems = calculatedItems its;
          sub = calc_subTotal citems;
          dAmount = calc_discountAmount dType dValue sub;
          grand = calc_grandTotal sub dAmount
      in case txn_fault e of
           Some err \<Rightarrow> (Inl err, st)
         | None \<Rightarrow>
             (let next = nextNumber (counter st);
                  newId = autoId e 0;
                  header = \<lparr> invoiceNumber = mintNumber (currentYear e) next,
                             invoiceDate = iDate,
                             customerName = (if cName = [] then ''Unknown Customer'' else cName),
                             customerAddress = (case cAddress of None \<Rightarrow> [] | Some a \<Rightarrow> a),
                             customerPhone = (case cPhone of None \<Rightarrow> [] | Some p \<Rightarrow> p),
                             currencySymbol = (case cSymbol of None \<Rightarrow> rupee | Some c \<Rightarrow> c),
                             subTotal = sub,
                             discountType = dType,
                             discountValue = dValue,
                             discountAmount = dAmount,
                             grandTotal = grand,
                             createdAt = now e,
                             userId = uid \<rparr>
              in (Inr newId,
                  st \<lparr> invoices := set_doc newId header (invoices st),
                       items := (items st)(newId := set_items (autoId e) citems (items st newId)),
                       counter := Some \<lparr> lastInvoiceNumber = JNum next \<rparr> \<rparr>)))"

subsection \<open>getInvoices\<close>

text \<open>
  \<open>Array.prototype.sort\<close> is stable, and the comparator \<open>bTime - aTime\<close> puts the later
  document first: a stable sort by decreasing time.
\<close>

definition sort_newest_first :: "(doc_id \<times> invoice) list \<Rightarrow> (doc_id \<times> invoice) list" where
  "sort_newest_first ds = sort_key (\<lambda>d. - createdAt (snd d)) ds"

definition getInvoices ::
  "error option \<Rightarrow> error option \<Rightarrow> store \<Rightarrow> string \<Rightarrow> error + (doc_id \<times> invoice) list" where
  "getInvoices fault fallback_fault st uid =
     (case getDocs fault (orderBy_createdAt_desc (where_userId uid (invoices st))) of
        Inr docs \<Rightarrow> Inr docs
      | Inl err \<Rightarrow>
          if code err = Some ''failed-precondition'' \<or> str_includes (message err) ''index''
          then (case getDocs fallback_fault (where_userId uid (invoices st)) of
                  Inr fallbackInvoices \<Rightarrow> Inr (sort_newest_first fallbackInvoices)
                | Inl fallbackError \<Rightarrow> Inl err)
          else Inl err)"

subsection \<open>deleteInvoice\<close>

text \<open>
  The faults of the four phases: reading the invoice, listing its items, deleting each item
  (all deletions are started together; those that are answered are applied, and the call
  rejects with a rejected one, here the first in the order of the documents), deleting the
  invoice.
\<close>

record delete_faults =
  get_fault :: "error option"
  list_fault :: "error option"
  item_fault :: "doc_id \<Rightarrow> error option"
  header_fault :: "error option"

definition deleteInvoice :: "delete_faults \<Rightarrow> store \<Rightarrow> doc_id \<Rightarrow> string \<Rightarrow> (error + unit) \<times> store" where
  "deleteInvoice fs st invoiceId uid =
     (case getDoc (get_fault fs) (invoices st) invoiceId of
        Inl e \<Rightarrow> (Inl e, st)
      | Inr None \<Rightarrow> (Inl (Error ''Invoice not found''), st)
      | Inr (Some hdr) \<Rightarrow>
          if userId hdr \<noteq> uid then (Inl (Error ''Unauthorized to delete this invoice''), st)
          else (case getDocs (list_fault fs) (items st invoiceId) of
                  Inl e \<Rightarrow> (Inl e, st)
                | Inr itemDocs \<Rightarrow>
                    (let st1 = st \<lparr> items := (items st)(invoiceId :=
                                  fold (\<lambda>itemDoc ds.
                                          if item_fault fs (fst itemDoc) = None
                                          then delete_doc (fst itemDoc) ds else ds)
                                    itemDocs (items st invoiceId)) \<rparr>
                     in case List.map_filter (\<lambda>itemDoc. item_fault fs (fst itemDoc)) itemDocs of
                          e # _ \<Rightarrow> (Inl e, st1)
                        | [] \<Rightarrow>
                            (case header_fault fs of
                               Some e \<Rightarrow> (Inl e, st1)
                             | None \<Rightarrow>
                                 (Inr (), st1 \<lparr> invoices := delete_doc invoiceId (invoices st1) \<rparr>)))))"

subsection \<open>updateInvoiceNumber and checkInvoiceNumberExists\<close>

record update_faults =
  read_fault :: "error option"
  query_fault :: "error option"
  write_fault :: "error option"

definition updateInvoiceNumber ::
  "update_faults \<Rightarrow> store \<Rightarrow> doc_id \<Rightarrow> string \<Rightarrow> string \<Rightarrow> (error + unit) \<times> store" where
  "updateInvoiceNumber fs st invoiceId uid newInvoiceNumber =
     (case getDoc (read_fault fs) (invoices st) invoiceId of
        Inl e \<Rightarrow> (Inl e, st)
      | Inr None \<Rightarrow> (Inl (Error ''Invoice not found''), st)
      | Inr (Some hdr) \<Rightarrow>
          if userId hdr \<noteq> uid then (Inl (Error ''Unauthorized to edit this invoice''), st)
          else (case getDocs (query_fault fs)
                       (where_invoiceNumber newInvoiceNumber (where_userId uid (invoices st))) of
                  Inl e \<Rightarrow> (Inl e, st)
                | Inr docs \<Rightarrow>
                    if docs \<noteq> [] \<and> fst (hd docs) \<noteq> invoiceId
                    then (Inl (Error ''Invoice number already exists''), st)
                    else (case write_fault fs of
                            Some e \<Rightarrow> (Inl e, st)
                          | None \<Rightarrow>
                              (Inr (), st \<lparr> invoices := update_doc invoiceId
                                  (\<lambda>hdr. hdr \<lparr> invoiceNumber := newInvoiceNumber \<rparr>) (invoices st) \<rparr>))))"

text \<open>
  The optional \<open>excludeInvoiceId\<close> is tested for truthiness: absent and the empty string
  both count as not provided.
\<close>

definition checkInvoiceNumberExists ::
  "error option \<Rightarrow> store \<Rightarrow> string \<Rightarrow> string \<Rightarrow> doc_id option \<Rightarrow> bool" where
  "checkInvoiceNumberExists fault st uid number excludeInvoiceId =
     (case getDocs fault (where_invoiceNumber number (where_userId uid (invoices st))) of
        Inl e \<Rightarrow> False
      | Inr docs \<Rightarrow>
          if docs = [] then False
          else (case excludeInvoiceId of
                  Some x \<Rightarrow> if x \<noteq> [] then fst (hd docs) \<noteq> x else True
                | None \<Rightarrow> True))"

section \<open>Sequences of calls, and reading a minted number back\<close>

record call =
  call_env :: env
  call_userId :: string
  call_customerName :: string
  call_invoiceDate :: string
  call_items :: "js_value item list"
  call_discountType :: discount_type
  call_discountValue :: number
  call_customerAddress :: "string option"
  call_customerPhone :: "string option"
  call_currencySymbol :: "string option"

definition run_call :: "store \<Rightarrow> call \<Rightarrow> (error + doc_id) \<times> store" where
  "run_call st c =
     createInvoice (call_env c) st (call_userId c) (call_customerName c) (call_invoiceDate c)
       (call_items c) (call_discountType c) (call_discountValue c) (call_customerAddress c)
       (call_customerPhone c) (call_currencySymbol c)"

text \<open>The calls in the order in which their transactions take effect.\<close>

fun create_all :: "store \<Rightarrow> call list \<Rightarrow> store" where
  "create_all st [] = st"
| "create_all st (c # cs) = create_all (snd (run_call st c)) cs"

definition committed :: "call \<Rightarrow> bool" where
  "committed c = (txn_fault (call_env c) = None)"

definition new_id :: "call \<Rightarrow> doc_id" where
  "new_id c = autoId (call_env c) 0"

definition number_of :: "store \<Rightarrow> doc_id \<Rightarrow> string option" where
  "number_of st k = map_option invoiceNumber (map_of (invoices st) k)"

text \<open>The number that the digits after the last slash of an invoice number denote.\<close>

definition digits_value :: "string \<Rightarrow> nat" where
  "digits_value s = foldl (\<lambda>a c. 10 * a + (of_char c - 48)) 0 s"

definition numeric_suffix :: "string \<Rightarrow> nat" where
  "numeric_suffix s = digits_value (rev (takeWhile (\<lambda>c. c \<noteq> CHR ''/'') (rev s)))"

text \<open>
  The numbers a sequence of calls is due, in the order of the commits, when the last number
  issued before it is \<open>K\<close>: each call that commits takes the next number, one that
  aborts takes none.
\<close>

fun minted_from :: "nat \<Rightarrow> call list \<Rightarrow> string list" where
  "minted_from K [] = []"
| "minted_from K (c # cs) =
     (if committed c
      then mintNumber (currentYear (call_env c)) (Num (of_nat (Suc K))) # minted_from (Suc K) cs
      else minted_from K cs)"

section \<open>Example states\<close>

definition empty_store :: store where
  "empty_store = \<lparr> invoices = [], items = (\<lambda>k. []), counter = None \<rparr>"

definition example_env :: "nat \<Rightarrow> doc_id \<Rightarrow> env" where
  "example_env y k =
     \<lparr> currentYear = y, now = 1735732800000, autoId = (\<lambda>i. k @ decimal i), txn_fault = None \<rparr>"

definition example_header :: "string \<Rightarrow> string \<Rightarrow> int \<Rightarrow> invoice" where
  "example_header uid n t =
     \<lparr> invoiceNumber = n, invoiceDate = ''2025-01-01'', customerName = ''Customer'',
       customerAddress = [], customerPhone = [], currencySymbol = rupee,
       subTotal = Num 250, discountType = Percentage, discountValue = Num 10,
       discountAmount = Num 25, grandTotal = Num 225, createdAt = t, userId = uid \<rparr>"

definition example_item :: "rat \<Rightarrow> rat \<Rightarrow> js_value item" where
  "example_item q p =
     \<lparr> description = ''Work'', quantity = JNum (Num q), price = JNum (Num p),
       total = JNum (Num (q * p)) \<rparr>"

definition no_delete_faults :: delete_faults where
  "no_delete_faults =
     \<lparr> get_fault = None, list_fault = None, item_fault = (\<lambda>k. None), header_fault = None \<rparr>"

definition no_update_faults :: update_faults where
  "no_update_faults = \<lparr> read_fault = None, query_fault = None, write_fault = None \<rparr>"

definition missing_index :: error where
  "missing_index = FirestoreError ''failed-precondition'' ''The query requires an index.''"

definition unavailable :: error where
  "unavailable = FirestoreError ''unavailable'' ''The service is currently unavailable.''"

text \<open>Two invoices of one owner that carry the same number.\<close>

definition twin_store :: store where
  "twin_store =
     \<lparr> invoices = [(''a'', example_header ''u'' ''BILL/25/002'' 1000),
                    (''b'', example_header ''u'' ''BILL/25/002'' 2000)],
       items = (\<lambda>k. []),
       counter = Some \<lparr> lastInvoiceNumber = JNum (Num 2) \<rparr> \<rparr>"

text \<open>Two invoices of one owner created in the same millisecond.\<close>

definition tie_store :: store where
  "tie_store =
     \<lparr> invoices = [(''a'', example_header ''u'' ''BILL/25/001'' 1000),
                    (''b'', example_header ''u'' ''BILL/25/002'' 1000)],
       items = (\<lambda>k. []),
       counter = Some \<lparr> lastInvoiceNumber = JNum (Num 2) \<rparr> \<rparr>"

definition owned_store :: store where
  "owned_store =
     \<lparr> invoices = [(''h1'', example_header ''alice'' ''BILL/25/001'' 1000)],
       items = (\<lambda>k. if k = ''h1''
                     then [(''i1'', \<lparr> description = ''Work'', quantity = Num 2, price = Num 100,
                                      total = Num 200 \<rparr>)]
                     else []),
       counter = Some \<lparr> lastInvoiceNumber = JNum (Num 1) \<rparr> \<rparr>"

text \<open>A counter at \<open>2^53\<close>, the first integer whose successor is no double.\<close>

definition full_store :: store where
  "full_store =
     \<lparr> invoices = [], items = (\<lambda>k. []),
       counter = Some \<lparr> lastInvoiceNumber = JNum (Num 9007199254740992) \<rparr> \<rparr>"

definition example_call :: "nat \<Rightarrow> doc_id \<Rightarrow> error option \<Rightarrow> call" where
  "example_call y k fault =
     \<lparr> call_env = (example_env y k) \<lparr> txn_fault := fault \<rparr>,
       call_userId = ''u'', call_customerName = ''Customer'', call_invoiceDate = ''2025-01-01'',
       call_items = [example_item 2 100, example_item 1 50],
       call_discountType = Percentage, call_discountValue = Num 10,
       call_customerAddress = None, call_customerPhone = None, call_currencySymbol = None \<rparr>"

definition example_calls :: "call list" where
  "example_calls =
     [example_call 2025 ''x'' None, example_call 2025 ''y'' (Some unavailable),
      example_call 2026 ''z'' None]"

section \<open>Rounding\<close>

lemma ilog2_bounds: "0 < n \<Longrightarrow> 2 ^ ilog2 n \<le> n \<and> n < 2 ^ Suc (ilog2 n)"
proof (induction n rule: ilog2.induct)
  case (1 n)
  show ?case
  proof (cases "n < 2")
    case True
    with 1 show ?thesis by (subst (1 2) ilog2.simps) simp
  next
    case False
    then have "2 ^ ilog2 (n div 2) \<le> n div 2 \<and> n div 2 < 2 ^ Suc (ilog2 (n div 2))"
      using 1 by simp
    then have "2 * 2 ^ ilog2 (n div 2) \<le> n \<and> n < 2 * 2 ^ Suc (ilog2 (n div 2))"
      by auto
    with False show ?thesis by (subst (1 2) ilog2.simps) simp
  qed
qed

lemma round_half_even_of_int: "round_half_even (of_int z) = z"
  by (simp add: round_half_even_def)

lemma pow2_pos: "0 < pow2 e"
  by (simp add: pow2_def)

lemma round_double_small_nat:
  assumes "n < 2 ^ 53"
  shows "round_double (of_nat n) = Num (of_nat n)"
proof (cases "n = 0")
  case True
  then show ?thesis by (simp add: round_double_def)
next
  case False
  define e where "e = ilog2 n"
  from False have b: "2 ^ e \<le> n" "n < 2 ^ Suc e"
    using ilog2_bounds [of n] by (simp_all add: e_def)
  from b(1) assms have "(2::nat) ^ e < 2 ^ 53" by (rule le_less_trans)
  then have "e < 53" by (rule power_less_imp_less_exp [rotated]) simp
  then have e52: "e \<le> 52" by simp
  have abs: "\<bar>of_nat n :: rat\<bar> = of_nat n" by simp
  have ex: "expo (of_nat n) = int e"
    using False by (simp add: expo_def e_def)
  have q0: "pow2 (max (int e) (- 1022) - 52) = 1 / 2 ^ (52 - e)"
  proof (cases "e = 52")
    case True
    then show ?thesis by (simp add: pow2_def)
  next
    case False
    with e52 have "e < 52" by simp
    then have "nat (52 - int e) = 52 - e" by simp
    with \<open>e < 52\<close> show ?thesis by (simp add: pow2_def)
  qed
  have q: "pow2 (max (expo \<bar>of_nat n\<bar>) (- 1022) - 52) = 1 / 2 ^ (52 - e)"
    unfolding abs ex by (rule q0)
  have m: "of_nat n / (1 / 2 ^ (52 - e)) = (of_int (int n * 2 ^ (52 - e)) :: rat)"
    by simp
  have v: "of_int (round_half_even (\<bar>of_nat n\<bar> / (1 / 2 ^ (52 - e)))) * (1 / 2 ^ (52 - e)) = (of_nat n :: rat)"
    unfolding abs m round_half_even_of_int by simp
  have small: "\<not> (2::rat) ^ 1024 \<le> of_nat n"
  proof -
    have "(of_nat n :: rat) < of_nat (2 ^ 53)" using assms by (simp only: of_nat_less_iff)
    also have "\<dots> < 2 ^ 1024" by simp
    finally show ?thesis by simp
  qed
  show ?thesis
    unfolding round_double_def Let_def q v using False small by simp
qed

lemma ilog2_2_53: "ilog2 9007199254740992 = 53"
  by (simp add: ilog2.simps)

lemma round_double_2_53: "round_double (2 ^ 53) = Num (2 ^ 53)"
  by (simp add: round_double_def expo_def pow2_def round_half_even_def ilog2_2_53 Let_def)

lemma round_double_nat:
  assumes "n \<le> 2 ^ 53"
  shows "round_double (of_nat n) = Num (of_nat n)"
proof (cases "n = 2 ^ 53")
  case True
  then show ?thesis using round_double_2_53 by simp
next
  case False
  with assms have "n < 2 ^ 53" by simp
  then show ?thesis by (rule round_double_small_nat)
qed


lemma round_half_even_nonneg: "0 \<le> x \<Longrightarrow> 0 \<le> round_half_even x"
  by (simp add: round_half_even_def Let_def)

lemma round_double_not_NaN: "round_double r \<noteq> NaN"
  by (simp add: round_double_def Let_def)

lemma round_double_non_negative: "0 \<le> r \<Longrightarrow> non_negative (round_double r)"
proof (cases "r = 0")
  case True
  then show ?thesis by (simp add: round_double_def)
next
  case False
  assume "0 \<le> r"
  with False have pos: "0 < r" by simp
  let ?q = "pow2 (max (expo \<bar>r\<bar>) (- 1022) - 52)"
  have "0 \<le> \<bar>r\<bar> / ?q" using pow2_pos [of "max (expo \<bar>r\<bar>) (- 1022) - 52"] by simp
  then have "0 \<le> round_half_even (\<bar>r\<bar> / ?q)" by (rule round_half_even_nonneg)
  then have "0 \<le> of_int (round_half_even (\<bar>r\<bar> / ?q)) * ?q"
    using pow2_pos [of "max (expo \<bar>r\<bar>) (- 1022) - 52"] by simp
  then show ?thesis using pos False by (simp add: round_double_def Let_def)
qed

lemma js_add_not_negative: "\<not> negative a \<Longrightarrow> \<not> negative b \<Longrightarrow> \<not> negative (js_add a b)"
proof (cases a; cases b)
  fix x y
  assume "a = Num x" "b = Num y" "\<not> negative a" "\<not> negative b"
  then have "non_negative (round_double (x + y))" by (simp add: round_double_non_negative)
  with \<open>a = Num x\<close> \<open>b = Num y\<close> show "\<not> negative (js_add a b)"
    by (cases "round_double (x + y)") simp_all
qed simp_all

lemma js_mul_not_negative: "\<not> negative a \<Longrightarrow> \<not> negative b \<Longrightarrow> \<not> negative (js_mul a b)"
proof (cases a; cases b)
  fix x y
  assume "a = Num x" "b = Num y" "\<not> negative a" "\<not> negative b"
  then have "non_negative (round_double (x * y))" by (simp add: round_double_non_negative)
  with \<open>a = Num x\<close> \<open>b = Num y\<close> show "\<not> negative (js_mul a b)"
    by (cases "round_double (x * y)") simp_all
qed simp_all

lemma js_div100_not_negative: "\<not> negative a \<Longrightarrow> \<not> negative (js_div100 a)"
proof (cases a)
  case (Num x)
  assume "\<not> negative a"
  with Num have "non_negative (round_double (x / 100))" by (simp add: round_double_non_negative)
  with Num show ?thesis by (cases "round_double (x / 100)") simp_all
qed simp_all

lemma Math_max_zero_not_negative: "\<not> negative (Math_max (Num 0) x)"
  by (cases x) simp_all

lemma not_negative_finite: "\<not> negative x \<Longrightarrow> isFinite x \<Longrightarrow> non_negative x"
  by (cases x) simp_all

lemma js_sub_finite_not_NaN: "isFinite a \<Longrightarrow> isFinite b \<Longrightarrow> js_sub a b \<noteq> NaN"
  by (cases a; cases b) (simp_all add: js_sub_def round_double_not_NaN)

lemma Math_max_zero_non_negative: "x \<noteq> NaN \<Longrightarrow> non_negative (Math_max (Num 0) x)"
  by (cases x) simp_all

lemma round_double_numeral:
  "(numeral k :: nat) \<le> 2 ^ 53 \<Longrightarrow> round_double (numeral k) = Num (numeral k)"
  using round_double_nat [of "numeral k"] by simp

lemma round_double_minus: "round_double (- r) = js_neg (round_double r)"
  by (simp add: round_double_def Let_def)

lemma pow2_succ: "pow2 (e + 1) = 2 * pow2 e"
proof -
  consider "0 \<le> e" | "e = - 1" | "e < - 1" by linarith
  then show ?thesis
  proof cases
    case 1
    then have "nat (e + 1) = Suc (nat e)" by simp
    with 1 show ?thesis by (simp add: pow2_def)
  next
    case 2
    then show ?thesis by (simp add: pow2_def)
  next
    case 3
    then have "nat (- e) = Suc (nat (- (e + 1)))" by simp
    with 3 show ?thesis by (simp add: pow2_def)
  qed
qed

lemma pow2_less_add: "pow2 e < pow2 (e + 1 + int k)"
proof (induction k)
  case 0
  show ?case using pow2_pos [of e] by (simp add: pow2_succ)
next
  case (Suc k)
  have "pow2 (e + 1 + int (Suc k)) = 2 * pow2 (e + 1 + int k)"
    using pow2_succ [of "e + 1 + int k"] by (simp add: add.assoc add.commute)
  with Suc pow2_pos [of "e + 1 + int k"] show ?case by simp
qed

lemma pow2_mono: "e \<le> e' \<Longrightarrow> pow2 e \<le> pow2 e'"
proof (cases "e = e'")
  case True
  then show ?thesis by simp
next
  case False
  assume "e \<le> e'"
  with False have "e' = e + 1 + int (nat (e' - e - 1))" by simp
  then show ?thesis using pow2_less_add [of e "nat (e' - e - 1)"] by simp
qed

lemma pow2_exponent_unique:
  assumes "pow2 e \<le> a" "a < pow2 (e + 1)" "pow2 e' \<le> a" "a < pow2 (e' + 1)"
  shows "e = e'"
proof (rule ccontr)
  assume "e \<noteq> e'"
  then consider "e + 1 \<le> e'" | "e' + 1 \<le> e" by linarith
  then show False
  proof cases
    case 1
    then have "pow2 (e + 1) \<le> pow2 e'" by (rule pow2_mono)
    with assms(2,3) show False by simp
  next
    case 2
    then have "pow2 (e' + 1) \<le> pow2 e" by (rule pow2_mono)
    with assms(1,4) show False by simp
  qed
qed

lemma expo_bounds:
  assumes "0 < a"
  shows "pow2 (expo a) \<le> a \<and> a < pow2 (expo a + 1)"
proof (cases "1 \<le> a")
  case True
  define n where "n = nat \<lfloor>a\<rfloor>"
  from True have fl: "(of_nat n :: rat) = of_int \<lfloor>a\<rfloor>" by (simp add: n_def)
  from True have n: "0 < n" "of_nat n \<le> a" "a < of_nat n + 1"
    unfolding fl using floor_correct [of a] by (simp_all add: n_def)
  from ilog2_bounds [OF n(1)] have b: "2 ^ ilog2 n \<le> n" "n + 1 \<le> 2 ^ Suc (ilog2 n)"
    by simp_all
  have "(2::rat) ^ ilog2 n = of_nat (2 ^ ilog2 n)" by simp
  also have "\<dots> \<le> of_nat n" using b(1) by (simp only: of_nat_le_iff)
  finally have "(2::rat) ^ ilog2 n \<le> of_nat n" .
  then have lo: "(2::rat) ^ ilog2 n \<le> a" using n(2) by (rule order_trans)
  have "a < of_nat (n + 1)" using n(3) by simp
  also have "\<dots> \<le> (of_nat (2 ^ Suc (ilog2 n)) :: rat)" using b(2) by (simp only: of_nat_le_iff)
  finally have hi: "a < 2 ^ Suc (ilog2 n)" by simp
  have p0: "pow2 (int (ilog2 n)) = 2 ^ ilog2 n" by (simp add: pow2_def)
  have "pow2 (int (ilog2 n) + 1) = 2 * pow2 (int (ilog2 n))" by (rule pow2_succ)
  then have p1: "pow2 (int (ilog2 n) + 1) = 2 ^ Suc (ilog2 n)" by (simp add: p0)
  have e: "expo a = int (ilog2 n)" using True by (simp add: expo_def n_def)
  show ?thesis unfolding e p0 p1 using lo hi by simp
next
  case False
  define c where "c = nat \<lceil>1 / a\<rceil>"
  define j where "j = Suc (ilog2 (c - 1))"
  from False assms have b1: "1 < 1 / a" by simp
  then have c1: "1 < \<lceil>1 / a\<rceil>" by (simp only: less_ceiling_iff of_int_1)
  then have c2: "2 \<le> c" unfolding c_def by linarith
  from c1 have ci: "(of_nat c :: rat) = of_int \<lceil>1 / a\<rceil>" by (simp add: c_def)
  have cb: "1 / a \<le> of_nat c" "of_nat c - 1 < 1 / a"
    unfolding ci using ceiling_correct [of "1 / a"] by simp_all
  from c2 have "0 < c - 1" by simp
  from ilog2_bounds [OF this] have b0: "2 ^ ilog2 (c - 1) \<le> c - 1"
    and "c - 1 < 2 ^ Suc (ilog2 (c - 1))" by simp_all
  then have b: "2 ^ ilog2 (c - 1) \<le> c - 1" "c \<le> 2 ^ j"
    unfolding j_def by linarith+
  have "1 / a \<le> of_nat (2 ^ j)"
    using cb(1) b(2) by (meson of_nat_le_iff order_trans)
  then have up: "1 / a \<le> 2 ^ j" by simp
  have "(of_nat (2 ^ ilog2 (c - 1)) :: rat) \<le> of_nat (c - 1)"
    using b(1) by (simp only: of_nat_le_iff)
  also have "\<dots> = of_nat c - 1" using c2 by (simp add: of_nat_diff)
  finally have dn: "2 ^ ilog2 (c - 1) < 1 / a" using cb(2) by simp
  have lo: "1 / 2 ^ j \<le> a"
    using up assms by (simp add: field_simps)
  have hi: "a < 1 / 2 ^ ilog2 (c - 1)"
    using dn assms by (simp add: field_simps)
  have e: "expo a = - int j"
    using False by (simp add: expo_def j_def c_def)
  have jpos: "0 < j" by (simp add: j_def)
  then have p1: "pow2 (- int j) = 1 / 2 ^ j"
    by (simp add: pow2_def)
  have "pow2 (- int j + 1) = 2 * pow2 (- int j)" by (rule pow2_succ)
  also have "\<dots> = 2 * (1 / 2 ^ j)" by (simp only: p1)
  also have "\<dots> = 1 / 2 ^ ilog2 (c - 1)" by (simp add: j_def)
  finally have p2: "pow2 (- int j + 1) = 1 / 2 ^ ilog2 (c - 1)" .
  show ?thesis unfolding e p1 p2 using lo hi by simp
qed

lemma expo_eq: "0 < a \<Longrightarrow> pow2 e \<le> a \<Longrightarrow> a < pow2 (e + 1) \<Longrightarrow> expo a = e"
  using expo_bounds [of a] pow2_exponent_unique [of "expo a" a e] by simp

lemma round_half_even_near:
  assumes "of_int m - 1 / 2 < x" "x < of_int m + 1 / 2"
  shows "round_half_even x = m"
proof (cases "of_int m \<le> x")
  case True
  with assms(2) have "\<lfloor>x\<rfloor> = m" by (intro floor_unique) simp_all
  with assms(2) show ?thesis by (simp add: round_half_even_def)
next
  case False
  with assms(1) have "\<lfloor>x\<rfloor> = m - 1" by (intro floor_unique) simp_all
  with assms(1) show ?thesis by (simp add: round_half_even_def)
qed

text \<open>
  The nearest double from its exponent and mantissa: for \<open>r\<close> between \<open>2^e\<close> and
  \<open>2^(e+1)\<close>, the multiple \<open>m * 2^(e-52)\<close> that is less than half a unit away.
\<close>

lemma round_double_nearest:
  assumes "0 < r" "pow2 e \<le> r" "r < pow2 (e + 1)" "- 1022 \<le> e"
    and "of_int m - 1 / 2 < r / pow2 (e - 52)" "r / pow2 (e - 52) < of_int m + 1 / 2"
    and "of_int m * pow2 (e - 52) < 2 ^ 1024"
  shows "round_double r = Num (of_int m * pow2 (e - 52))"
proof -
  have a: "\<bar>r\<bar> = r" using assms(1) by simp
  have e: "expo r = e" using assms(1-3) by (rule expo_eq)
  have m: "round_half_even (r / pow2 (e - 52)) = m"
    using assms(5,6) by (rule round_half_even_near)
  have mx: "max e (- 1022) = e" using assms(4) by simp
  show ?thesis
    unfolding round_double_def Let_def a e mx m using assms(1,7) by simp
qed

lemma round_half_even_ge_floor: "\<lfloor>x\<rfloor> \<le> round_half_even x"
  by (simp add: round_half_even_def Let_def)

lemma pow2_diff_52: "pow2 e / pow2 (e - 52) = 2 ^ 52"
proof -
  have step: "pow2 (d + int k) = 2 ^ k * pow2 d" for d k
  proof (induction k)
    case 0
    show ?case by simp
  next
    case (Suc k)
    have "d + int (Suc k) = d + int k + 1" by simp
    then have "pow2 (d + int (Suc k)) = 2 * pow2 (d + int k)"
      by (simp only: pow2_succ)
    with Suc show ?case by simp
  qed
  have "pow2 e = pow2 (e - 52 + int 52)" by simp
  also have "\<dots> = 2 ^ 52 * pow2 (e - 52)" by (rule step)
  finally show ?thesis using pow2_pos [of "e - 52"] by simp
qed

text \<open>Beyond the largest double the result is an infinity.\<close>

lemma round_double_overflow:
  assumes "2 ^ 1024 \<le> r"
  shows "round_double r = PosInf"
proof -
  from assms have pos: "0 < r" by (rule less_le_trans [rotated]) simp
  let ?e = "expo r"
  from expo_bounds [OF pos] have b: "pow2 ?e \<le> r" "r < pow2 (?e + 1)" by simp_all
  have p: "pow2 1024 = 2 ^ 1024" by (simp add: pow2_def)
  have "pow2 1024 < pow2 (?e + 1)" using assms b(2) unfolding p by simp
  then have "\<not> ?e + 1 \<le> 1024" using pow2_mono [of "?e + 1" 1024] by auto
  then have big: "1024 \<le> ?e" by simp
  then have mx: "max ?e (- 1022) = ?e" by simp
  let ?q = "pow2 (?e - 52)"
  have q: "0 < ?q" by (rule pow2_pos)
  have "2 ^ 52 = pow2 ?e / ?q" by (simp only: pow2_diff_52)
  also have "\<dots> \<le> r / ?q" using b(1) q by (simp add: divide_right_mono)
  finally have "(of_int (2 ^ 52) :: rat) \<le> r / ?q" by simp
  then have "2 ^ 52 \<le> \<lfloor>r / ?q\<rfloor>" by (simp only: le_floor_iff)
  then have "2 ^ 52 \<le> round_half_even (r / ?q)"
    by (rule order_trans) (rule round_half_even_ge_floor)
  then have "(of_int (2 ^ 52) :: rat) \<le> of_int (round_half_even (r / ?q))"
    by (simp only: of_int_le_iff)
  then have "2 ^ 52 * ?q \<le> of_int (round_half_even (r / ?q)) * ?q"
    using q by simp
  moreover have "2 ^ 52 * ?q = pow2 ?e" using pow2_diff_52 [of ?e] q by (simp add: field_simps)
  moreover have "pow2 1024 \<le> pow2 ?e" using big by (rule pow2_mono)
  ultimately have "2 ^ 1024 \<le> of_int (round_half_even (r / ?q)) * ?q"
    unfolding p by simp
  moreover have a: "\<bar>r\<bar> = r" using pos by simp
  ultimately show ?thesis
    unfolding round_double_def Let_def a mx using pos by simp
qed

section \<open>Error handling of the checks\<close>

text \<open>
  Claim C8. Whenever the query of \<open>checkInvoiceNumberExists\<close> rejects, with whatever
  error, for every owner, number and optional id to exclude, the call returns \<open>false\<close>:
  the error is not passed on.
\<close>

theorem checkInvoiceNumberExists_fails_open:
  "checkInvoiceNumberExists (Some e) st uid number excludeInvoiceId = False"
  by (simp add: checkInvoiceNumberExists_def getDocs_def)

text \<open>
  Claim C5. When the read of the invoice is answered: a call of \<open>deleteInvoice\<close> on an id
  without a document fails with "Invoice not found", and a call by anyone but the owner of
  an existing invoice fails with "Unauthorized to delete this invoice"; in both cases the
  store, so the invoice and each of its items, is as it was.
\<close>

theorem deleteInvoice_guards:
  "get_fault fs = None \<Longrightarrow>
     (map_of (invoices st) invoiceId = None \<longrightarrow>
        deleteInvoice fs st invoiceId uid = (Inl (Error ''Invoice not found''), st)) \<and>
     (\<forall>hdr. map_of (invoices st) invoiceId = Some hdr \<and> userId hdr \<noteq> uid \<longrightarrow>
        deleteInvoice fs st invoiceId uid =
          (Inl (Error ''Unauthorized to delete this invoice''), st))"
  by (simp add: deleteInvoice_def getDoc_def)

theorem deleteInvoice_guards_witness:
  "deleteInvoice no_delete_faults owned_store ''h1'' ''bob'' =
     (Inl (Error ''Unauthorized to delete this invoice''), owned_store) \<and>
   deleteInvoice no_delete_faults owned_store ''h2'' ''bob'' =
     (Inl (Error ''Invoice not found''), owned_store)"
  using deleteInvoice_guards [of no_delete_faults owned_store "''h1''" "''bob''"]
    deleteInvoice_guards [of no_delete_faults owned_store "''h2''" "''bob''"]
  by (simp add: no_delete_faults_def owned_store_def example_header_def)

section \<open>Writing and reading back a document\<close>

lemma map_of_set_doc: "map_of (set_doc k v ds) = (map_of ds)(k \<mapsto> v)"
  by (induction ds) (auto simp: fun_eq_iff)

lemma createInvoice_aborts:
  "txn_fault e = Some err \<Longrightarrow>
     createInvoice e st uid cName iDate its dType dValue cAddress cPhone cSymbol = (Inl err, st)"
  by (simp add: createInvoice_def Let_def)

lemma createInvoice_returns:
  "txn_fault e = None \<Longrightarrow>
     fst (createInvoice e st uid cName iDate its dType dValue cAddress cPhone cSymbol) = Inr (autoId e 0)"
  by (simp add: createInvoice_def Let_def)

lemma createInvoice_counter:
  "txn_fault e = None \<Longrightarrow>
     counter (snd (createInvoice e st uid cName iDate its dType dValue cAddress cPhone cSymbol)) =
       Some \<lparr> lastInvoiceNumber = JNum (nextNumber (counter st)) \<rparr>"
  by (simp add: createInvoice_def Let_def)

lemma createInvoice_other:
  "k \<noteq> autoId e 0 \<Longrightarrow>
     map_of (invoices (snd (createInvoice e st uid cName iDate its dType dValue cAddress cPhone cSymbol))) k =
       map_of (invoices st) k"
  by (simp add: createInvoice_def Let_def map_of_set_doc split: option.splits)

lemma createInvoice_header:
  "txn_fault e = None \<Longrightarrow>
     \<exists>h. map_of (invoices (snd (createInvoice e st uid cName iDate its dType dValue cAddress cPhone cSymbol)))
           (autoId e 0) = Some h \<and>
       invoiceNumber h = mintNumber (currentYear e) (nextNumber (counter st)) \<and>
       subTotal h = calc_subTotal (calculatedItems its) \<and>
       discountType h = dType \<and> discountValue h = dValue \<and>
       discountAmount h = calc_discountAmount dType dValue (calc_subTotal (calculatedItems its)) \<and>
       grandTotal h = calc_grandTotal (calc_subTotal (calculatedItems its))
          (calc_discountAmount dType dValue (calc_subTotal (calculatedItems its))) \<and>
       createdAt h = now e \<and> userId h = uid"
  by (simp add: createInvoice_def Let_def map_of_set_doc)

lemma createInvoice_number:
  "txn_fault e = None \<Longrightarrow>
     number_of (snd (createInvoice e st uid cName iDate its dType dValue cAddress cPhone cSymbol)) (autoId e 0)
       = Some (mintNumber (currentYear e) (nextNumber (counter st)))"
  using createInvoice_header [of e st uid cName iDate its dType dValue cAddress cPhone cSymbol]
  by (auto simp: number_of_def)

lemma toString_nat: "n \<le> 2 ^ 53 \<Longrightarrow> toString (Num (of_nat n)) = decimal n"
proof -
  assume "n \<le> 2 ^ 53"
  then have "(of_nat n :: rat) \<le> of_nat (2 ^ 53)" by (simp only: of_nat_le_iff)
  then show ?thesis by (simp add: toString_def toString_pos_def)
qed

lemma mintNumber_nat:
  "n \<le> 2 ^ 53 \<Longrightarrow> mintNumber y (Num (of_nat n)) =
     ''BILL/'' @ slice_last 2 (decimal y) @ ''/'' @ padStart 3 (CHR ''0'') (decimal n)"
  by (simp add: mintNumber_def toString_nat)

lemma js_add_one: "K < 2 ^ 53 \<Longrightarrow> js_add (Num (of_nat K)) (Num 1) = Num (of_nat (Suc K))"
proof -
  assume "K < 2 ^ 53"
  then have "Suc K \<le> 2 ^ 53" by simp
  then have "round_double (of_nat (Suc K)) = Num (of_nat (Suc K))" by (rule round_double_nat)
  then show ?thesis by (simp add: add.commute)
qed

lemma nextNumber_lastIssued: "nextNumber c = js_add (lastIssued c) (Num 1)"
  using js_add_one [of 0] by (cases c) (simp_all add: nextNumber_def lastIssued_def)

lemma nextNumber_of_last:
  "lastIssued c = Num (of_nat K) \<Longrightarrow> K < 2 ^ 53 \<Longrightarrow> nextNumber c = Num (of_nat (Suc K))"
  by (simp only: nextNumber_lastIssued js_add_one)

lemma lastIssued_counter:
  "lastIssued (Some \<lparr> lastInvoiceNumber = JNum (Num (of_nat K)) \<rparr>) = Num (of_nat K)"
  by (simp add: lastIssued_def js_or_def)

lemma nextNumber_nat:
  "K < 2 ^ 53 \<Longrightarrow>
     nextNumber (Some \<lparr> lastInvoiceNumber = JNum (Num (of_nat K)) \<rparr>) = Num (of_nat (Suc K))"
  using lastIssued_counter by (rule nextNumber_of_last)

lemma nextNumber_falsy:
  "\<not> truthy (Number (lastInvoiceNumber d)) \<Longrightarrow> nextNumber (Some d) = nextNumber None"
  by (simp add: nextNumber_lastIssued lastIssued_def js_or_def)

lemma nextNumber_fresh: "nextNumber None = Num 1"
  by (simp add: nextNumber_def)

text \<open>At \<open>2^53\<close> the successor is no double: the sum rounds back, and the counter stalls.\<close>

lemma nextNumber_stalls:
  "nextNumber (Some \<lparr> lastInvoiceNumber = JNum (Num 9007199254740992) \<rparr>) =
     Num 9007199254740992"
proof -
  have "ilog2 9007199254740993 = 53" by (simp add: ilog2.simps)
  moreover have "\<lfloor>9007199254740993 / 2 :: rat\<rfloor> = 4503599627370496"
    by (rule floor_unique) simp_all
  ultimately have "round_double 9007199254740993 = Num 9007199254740992"
    by (simp add: round_double_def expo_def pow2_def round_half_even_def Let_def)
  then show ?thesis by (simp add: nextNumber_def js_or_def)
qed

section \<open>Decimal digits\<close>

lemma digit_char_value: "n < 10 \<Longrightarrow> of_char (''0123456789'' ! n) - 48 = (n::nat)"
  by (auto simp: eval_nat_numeral less_Suc_eq)

lemma digit_char_no_slash: "n < 10 \<Longrightarrow> ''0123456789'' ! n \<noteq> CHR ''/''"
  by (auto simp: eval_nat_numeral less_Suc_eq)

lemma digits_value_snoc: "digits_value (s @ [c]) = 10 * digits_value s + (of_char c - 48)"
  by (simp add: digits_value_def)

lemma digits_value_decimal: "digits_value (decimal n) = n"
proof (induction n rule: decimal.induct)
  case (1 n)
  show ?case
  proof (cases "n < 10")
    case True
    then show ?thesis
      by (subst decimal.simps) (simp add: digits_value_def digit_char_value)
  next
    case False
    then have "digits_value (decimal (n div 10)) = n div 10" using 1 by simp
    with False show ?thesis
      by (subst decimal.simps) (simp add: digits_value_snoc digit_char_value)
  qed
qed

lemma decimal_no_slash: "CHR ''/'' \<notin> set (decimal n)"
proof (induction n rule: decimal.induct)
  case (1 n)
  show ?case
  proof (cases "n < 10")
    case True
    then show ?thesis
      using digit_char_no_slash [of n] by (subst decimal.simps) auto
  next
    case False
    then have "CHR ''/'' \<notin> set (decimal (n div 10))" using 1 by simp
    with False show ?thesis
      using digit_char_no_slash [of "n mod 10"] by (subst decimal.simps) auto
  qed
qed

lemma digits_value_zeros: "digits_value (replicate k (CHR ''0'') @ s) = digits_value s"
proof -
  have "foldl (\<lambda>a c. 10 * a + (of_char c - 48)) 0 (replicate k (CHR ''0'')) = (0::nat)"
    by (induction k) simp_all
  then show ?thesis by (simp add: digits_value_def)
qed

lemma numeric_suffix_mint: "numeric_suffix (pre @ ''/'' @ padStart 3 (CHR ''0'') (decimal n)) = n"
proof -
  let ?p = "padStart 3 (CHR ''0'') (decimal n)"
  have ns: "\<forall>c\<in>set (rev ?p). c \<noteq> CHR ''/''"
    using decimal_no_slash [of n] by (auto simp: padStart_def)
  have "takeWhile (\<lambda>c. c \<noteq> CHR ''/'') (rev ?p @ CHR ''/'' # rev pre) = rev ?p"
    using ns by (simp del: set_rev)
  then have "numeric_suffix (pre @ ''/'' @ ?p) = digits_value ?p"
    by (simp add: numeric_suffix_def)
  also have "\<dots> = n" by (simp add: padStart_def digits_value_zeros digits_value_decimal)
  finally show ?thesis .
qed

section \<open>The counter along a sequence of calls\<close>

lemma run_call_aborted: "\<not> committed c \<Longrightarrow> \<exists>err. run_call st c = (Inl err, st)"
  by (auto simp: committed_def run_call_def createInvoice_aborts)

lemma run_call_counter:
  "committed c \<Longrightarrow> lastIssued (counter st) = Num (of_nat K) \<Longrightarrow> K < 2 ^ 53 \<Longrightarrow>
     counter (snd (run_call st c)) = Some \<lparr> lastInvoiceNumber = JNum (Num (of_nat (Suc K))) \<rparr>"
  by (simp add: committed_def run_call_def createInvoice_counter nextNumber_of_last)

lemma run_call_last:
  "committed c \<Longrightarrow> lastIssued (counter st) = Num (of_nat K) \<Longrightarrow> K < 2 ^ 53 \<Longrightarrow>
     lastIssued (counter (snd (run_call st c))) = Num (of_nat (Suc K))"
  by (simp only: run_call_counter lastIssued_counter)

lemma run_call_number:
  "committed c \<Longrightarrow> lastIssued (counter st) = Num (of_nat K) \<Longrightarrow> K < 2 ^ 53 \<Longrightarrow>
     number_of (snd (run_call st c)) (new_id c) =
       Some (mintNumber (currentYear (call_env c)) (Num (of_nat (Suc K))))"
  by (simp add: committed_def run_call_def new_id_def createInvoice_number nextNumber_of_last)

lemma run_call_other:
  "k \<noteq> new_id c \<Longrightarrow> number_of (snd (run_call st c)) k = number_of st k"
  by (simp add: run_call_def new_id_def number_of_def createInvoice_other)

lemma create_all_other:
  "k \<notin> new_id ` set (filter committed cs) \<Longrightarrow> number_of (create_all st cs) k = number_of st k"
proof (induction cs arbitrary: st)
  case Nil
  show ?case by simp
next
  case (Cons c cs)
  show ?case
  proof (cases "committed c")
    case True
    with Cons.prems have "k \<noteq> new_id c" and "k \<notin> new_id ` set (filter committed cs)" by auto
    then show ?thesis using Cons.IH [of "snd (run_call st c)"] by (simp add: run_call_other)
  next
    case False
    then obtain err where "run_call st c = (Inl err, st)" using run_call_aborted by blast
    with False Cons show ?thesis by simp
  qed
qed

lemma create_all_numbers:
  "lastIssued (counter st) = Num (of_nat K) \<Longrightarrow>
   K + length (filter committed cs) \<le> 2 ^ 53 \<Longrightarrow>
   distinct (map new_id (filter committed cs)) \<Longrightarrow>
     map (\<lambda>c. number_of (create_all st cs) (new_id c)) (filter committed cs) =
       map Some (minted_from K cs)"
proof (induction cs arbitrary: st K)
  case Nil
  show ?case by simp
next
  case (Cons c cs)
  show ?case
  proof (cases "committed c")
    case True
    let ?st1 = "snd (run_call st c)"
    from True Cons.prems(2) have small: "K < 2 ^ 53"
      and rest: "Suc K + length (filter committed cs) \<le> 2 ^ 53" by simp_all
    from True Cons.prems(3) have fresh: "new_id c \<notin> new_id ` set (filter committed cs)"
      and dist: "distinct (map new_id (filter committed cs))" by auto
    have "number_of (create_all ?st1 cs) (new_id c) = number_of ?st1 (new_id c)"
      using fresh by (rule create_all_other)
    also have "\<dots> = Some (mintNumber (currentYear (call_env c)) (Num (of_nat (Suc K))))"
      using True Cons.prems(1) small by (rule run_call_number)
    finally have first: "number_of (create_all ?st1 cs) (new_id c) =
      Some (mintNumber (currentYear (call_env c)) (Num (of_nat (Suc K))))" .
    have "lastIssued (counter ?st1) = Num (of_nat (Suc K))"
      using True Cons.prems(1) small by (rule run_call_last)
    then have "map (\<lambda>c. number_of (create_all ?st1 cs) (new_id c)) (filter committed cs) =
       map Some (minted_from (Suc K) cs)"
      using rest dist by (rule Cons.IH)
    with first True show ?thesis by simp
  next
    case False
    then obtain err where "run_call st c = (Inl err, st)" using run_call_aborted by blast
    with False Cons show ?thesis by simp
  qed
qed

lemma create_all_last:
  "lastIssued (counter st) = Num (of_nat K) \<Longrightarrow>
   K + length (filter committed cs) \<le> 2 ^ 53 \<Longrightarrow>
     lastIssued (counter (create_all st cs)) = Num (of_nat (K + length (filter committed cs)))"
proof (induction cs arbitrary: st K)
  case Nil
  then show ?case by simp
next
  case (Cons c cs)
  show ?case
  proof (cases "committed c")
    case True
    from True Cons.prems(2) have small: "K < 2 ^ 53"
      and rest: "Suc K + length (filter committed cs) \<le> 2 ^ 53" by simp_all
    have "lastIssued (counter (snd (run_call st c))) = Num (of_nat (Suc K))"
      using True Cons.prems(1) small by (rule run_call_last)
    then have "lastIssued (counter (create_all (snd (run_call st c)) cs)) =
        Num (of_nat (Suc K + length (filter committed cs)))"
      using rest by (rule Cons.IH)
    with True show ?thesis by simp
  next
    case False
    then obtain err where "run_call st c = (Inl err, st)" using run_call_aborted by blast
    with False Cons show ?thesis by simp
  qed
qed

lemma create_all_counter:
  "counter st = Some \<lparr> lastInvoiceNumber = JNum (Num (of_nat K)) \<rparr> \<Longrightarrow>
   K + length (filter committed cs) \<le> 2 ^ 53 \<Longrightarrow>
     counter (create_all st cs) =
       Some \<lparr> lastInvoiceNumber = JNum (Num (of_nat (K + length (filter committed cs)))) \<rparr>"
proof (induction cs arbitrary: st K)
  case Nil
  then show ?case by simp
next
  case (Cons c cs)
  show ?case
  proof (cases "committed c")
    case True
    from True Cons.prems(2) have small: "K < 2 ^ 53"
      and rest: "Suc K + length (filter committed cs) \<le> 2 ^ 53" by simp_all
    have "lastIssued (counter st) = Num (of_nat K)"
      using Cons.prems(1) by (simp add: lastIssued_counter)
    with True have "counter (snd (run_call st c)) =
        Some \<lparr> lastInvoiceNumber = JNum (Num (of_nat (Suc K))) \<rparr>"
      using small by (rule run_call_counter)
    then have "counter (create_all (snd (run_call st c)) cs) =
       Some \<lparr> lastInvoiceNumber = JNum (Num (of_nat (Suc K + length (filter committed cs)))) \<rparr>"
      using rest by (rule Cons.IH)
    with True show ?thesis by simp
  next
    case False
    then obtain err where "run_call st c = (Inl err, st)" using run_call_aborted by blast
    with False Cons show ?thesis by simp
  qed
qed

lemma suffix_minted_from:
  "K + length (filter committed cs) \<le> 2 ^ 53 \<Longrightarrow>
     map numeric_suffix (minted_from K cs) = [Suc K ..< Suc K + length (filter committed cs)]"
proof (induction cs arbitrary: K)
  case Nil
  show ?case by simp
next
  case (Cons c cs)
  show ?case
  proof (cases "committed c")
    case True
    from True Cons.prems have small: "Suc K \<le> 2 ^ 53"
      and rest: "Suc K + length (filter committed cs) \<le> 2 ^ 53" by simp_all
    have "numeric_suffix (mintNumber (currentYear (call_env c)) (Num (of_nat (Suc K)))) = Suc K"
      using numeric_suffix_mint [of "''BILL/'' @ slice_last 2 (decimal (currentYear (call_env c)))" "Suc K"]
      unfolding mintNumber_nat [OF small] by simp
    then have "map numeric_suffix (minted_from K (c # cs)) =
        Suc K # [Suc (Suc K) ..< Suc (Suc K) + length (filter committed cs)]"
      using True Cons.IH [OF rest] by simp
    also have "\<dots> = [Suc K ..< Suc (Suc K) + length (filter committed cs)]"
      by (rule upt_conv_Cons [symmetric]) simp
    finally show ?thesis using True by simp
  next
    case False
    with Cons show ?thesis by simp
  qed
qed

lemma distinct_minted_from:
  "K + length (filter committed cs) \<le> 2 ^ 53 \<Longrightarrow> distinct (minted_from K cs)"
proof -
  assume "K + length (filter committed cs) \<le> 2 ^ 53"
  then have "distinct (map numeric_suffix (minted_from K cs))"
    by (simp add: suffix_minted_from)
  then show ?thesis by (simp add: distinct_map)
qed

lemma run_call_written:
  "committed c \<Longrightarrow>
     counter (snd (run_call st c)) = Some \<lparr> lastInvoiceNumber = JNum (nextNumber (counter st)) \<rparr>"
  by (simp add: committed_def run_call_def createInvoice_counter)

lemma run_call_minted:
  "committed c \<Longrightarrow>
     number_of (snd (run_call st c)) (new_id c) =
       Some (mintNumber (currentYear (call_env c)) (nextNumber (counter st)))"
  by (simp add: committed_def run_call_def new_id_def createInvoice_number)

section \<open>Invoice numbers\<close>

text \<open>
  Claim C1, as the code has it. Take any sequence of \<open>createInvoice\<close> calls, in the order
  in which their transactions take effect, on a store whose counter holds
  \<open>lastInvoiceNumber = K\<close>, the ids generated for the invoices of the committing calls
  being different from one another, and let \<open>K\<close> plus the number of commits be at most
  \<open>2^53\<close>. Then the invoice numbers stored for the calls that commit have no duplicates,
  and their numeric suffixes are \<open>K + 1, K + 2, ...\<close> without a gap, one per commit; the
  counter ends at \<open>K\<close> plus the number of commits. A call whose transaction aborts fails
  and leaves the store, the counter included, as it was: it takes no number. Beyond
  \<open>2^53\<close> the sum \<open>lastInvoiceNumber + 1\<close> rounds back to \<open>lastInvoiceNumber\<close>, and two
  commits store the same number.
\<close>

theorem createInvoice_numbers_gapless:
  assumes "counter st = Some \<lparr> lastInvoiceNumber = JNum (Num (of_nat K)) \<rparr>"
    and "distinct (map new_id (filter committed cs))"
    and "K + length (filter committed cs) \<le> 2 ^ 53"
  shows "\<exists>nums.
      map (\<lambda>c. number_of (create_all st cs) (new_id c)) (filter committed cs) = map Some nums \<and>
      distinct nums \<and>
      map numeric_suffix nums = [Suc K ..< Suc K + length (filter committed cs)] \<and>
      counter (create_all st cs) =
        Some \<lparr> lastInvoiceNumber = JNum (Num (of_nat (K + length (filter committed cs)))) \<rparr> \<and>
      (\<forall>c s. \<not> committed c \<longrightarrow> snd (run_call s c) = s \<and> isl (fst (run_call s c)))"
proof -
  have last: "lastIssued (counter st) = Num (of_nat K)"
    using assms(1) by (simp add: lastIssued_counter)
  have ab: "\<forall>c s. \<not> committed c \<longrightarrow> snd (run_call s c) = s \<and> isl (fst (run_call s c))"
    by (auto simp: committed_def run_call_def createInvoice_aborts)
  show ?thesis
    using create_all_numbers [OF last assms(3) assms(2)] distinct_minted_from [OF assms(3)]
      suffix_minted_from [OF assms(3)] create_all_counter [OF assms(1) assms(3)] ab
    by blast
qed

theorem createInvoice_numbers_gapless_witness:
  "\<exists>nums.
      map (\<lambda>c. number_of (create_all twin_store example_calls) (new_id c))
        [example_call 2025 ''x'' None, example_call 2026 ''z'' None] = map Some nums \<and>
      distinct nums \<and> map numeric_suffix nums = [3, 4] \<and>
      counter (create_all twin_store example_calls) =
        Some \<lparr> lastInvoiceNumber = JNum (Num 4) \<rparr>"
proof -
  have f: "filter committed example_calls =
      [example_call 2025 ''x'' None, example_call 2026 ''z'' None]"
    by (simp add: example_calls_def committed_def example_call_def example_env_def)
  have h1: "counter twin_store = Some \<lparr> lastInvoiceNumber = JNum (Num (of_nat 2)) \<rparr>"
    by (simp add: twin_store_def)
  have h2: "distinct (map new_id (filter committed example_calls))"
    unfolding f by (simp add: new_id_def example_call_def example_env_def)
  have u: "[Suc 2 ..< Suc 2 + 2] = [3, 4]"
    by (simp add: upt_rec)
  have h3: "2 + length (filter committed example_calls) \<le> 2 ^ 53"
    unfolding f by simp
  from createInvoice_numbers_gapless [OF h1 h2 h3] obtain nums where
    "map (\<lambda>c. number_of (create_all twin_store example_calls) (new_id c))
       (filter committed example_calls) = map Some nums"
    "distinct nums"
    "map numeric_suffix nums = [Suc 2 ..< Suc 2 + length (filter committed example_calls)]"
    "counter (create_all twin_store example_calls) =
       Some \<lparr> lastInvoiceNumber =
         JNum (Num (of_nat (2 + length (filter committed example_calls)))) \<rparr>"
    by blast
  then show ?thesis
    unfolding f by (intro exI [of _ nums]) (simp add: u)
qed

theorem createInvoice_numbers_repeat:
  "number_of (create_all full_store [example_call 2025 ''x'' None, example_call 2025 ''z'' None])
     (new_id (example_call 2025 ''x'' None)) = Some ''BILL/25/9007199254740992'' \<and>
   number_of (create_all full_store [example_call 2025 ''x'' None, example_call 2025 ''z'' None])
     (new_id (example_call 2025 ''z'' None)) = Some ''BILL/25/9007199254740992'' \<and>
   new_id (example_call 2025 ''x'' None) \<noteq> new_id (example_call 2025 ''z'' None) \<and>
   counter (create_all full_store [example_call 2025 ''x'' None, example_call 2025 ''z'' None]) =
     Some \<lparr> lastInvoiceNumber = JNum (Num 9007199254740992) \<rparr>"
proof -
  let ?x = "example_call 2025 ''x'' None" and ?z = "example_call 2025 ''z'' None"
  let ?st1 = "snd (run_call full_store ?x)"
  let ?st2 = "snd (run_call ?st1 ?z)"
  have ok: "txn_fault (call_env ?x) = None" "txn_fault (call_env ?z) = None"
    by (simp_all add: example_call_def example_env_def)
  have year: "currentYear (call_env ?x) = 2025" "currentYear (call_env ?z) = 2025"
    by (simp_all add: example_call_def example_env_def)
  have ids: "new_id ?x \<noteq> new_id ?z"
    by (simp add: new_id_def example_call_def example_env_def)
  have "(9007199254740992::nat) \<le> 2 ^ 53" by simp
  from mintNumber_nat [OF this, of 2025]
  have mint: "mintNumber 2025 (Num 9007199254740992) = ''BILL/25/9007199254740992''"
    by (simp add: slice_last_def padStart_def decimal.simps)
  have c0: "counter full_store = Some \<lparr> lastInvoiceNumber = JNum (Num 9007199254740992) \<rparr>"
    by (simp add: full_store_def)
  have cm: "committed ?x" "committed ?z"
    using ok by (simp_all add: committed_def)
  have c1: "counter ?st1 = Some \<lparr> lastInvoiceNumber = JNum (Num 9007199254740992) \<rparr>"
    by (simp only: run_call_written [OF cm(1)] c0 nextNumber_stalls)
  have c2: "counter ?st2 = Some \<lparr> lastInvoiceNumber = JNum (Num 9007199254740992) \<rparr>"
    by (simp only: run_call_written [OF cm(2)] c1 nextNumber_stalls)
  have n1: "number_of ?st1 (new_id ?x) = Some ''BILL/25/9007199254740992''"
    by (simp only: run_call_minted [OF cm(1)] c0 nextNumber_stalls year mint)
  have n2: "number_of ?st2 (new_id ?z) = Some ''BILL/25/9007199254740992''"
    by (simp only: run_call_minted [OF cm(2)] c1 nextNumber_stalls year mint)
  have "number_of ?st2 (new_id ?x) = number_of ?st1 (new_id ?x)"
    using ids by (rule run_call_other)
  with n1 n2 c2 ids show ?thesis by simp
qed

text \<open>
  Claim C6. In the year 2025, on a store without a counter document, a committing
  \<open>createInvoice\<close> stores the invoice number \<open>BILL/25/001\<close>; and after any calls of which
  999 have committed, the next one, the 1000th allocation, stores \<open>BILL/25/1000\<close>: the
  padding to three digits cuts nothing off.
\<close>

theorem createInvoice_first_and_thousandth:
  "counter st = None \<Longrightarrow> currentYear e = 2025 \<Longrightarrow> txn_fault e = None \<Longrightarrow>
     number_of (snd (createInvoice e st uid cName iDate its dType dValue cAddress cPhone cSymbol))
       (autoId e 0) = Some ''BILL/25/001'' \<and>
     (\<forall>cs. length (filter committed cs) = 999 \<longrightarrow>
        number_of (snd (createInvoice e (create_all st cs) uid cName iDate its dType dValue
          cAddress cPhone cSymbol)) (autoId e 0) = Some ''BILL/25/1000'')"
proof -
  assume fresh: "counter st = None" and year: "currentYear e = 2025" and ok: "txn_fault e = None"
  have y: "slice_last 2 (decimal 2025) = ''25''"
    by (simp add: slice_last_def decimal.simps)
  have "(1::nat) \<le> 2 ^ 53" by simp
  from mintNumber_nat [OF this, of 2025]
  have first: "mintNumber 2025 (Num 1) = ''BILL/25/001''"
    unfolding y by (simp add: padStart_def decimal.simps numeral_2_eq_2)
  have "Suc 999 \<le> 2 ^ 53" by simp
  from mintNumber_nat [OF this, of 2025]
  have thousandth: "mintNumber 2025 (Num (of_nat (Suc 999))) = ''BILL/25/1000''"
    unfolding y by (simp add: padStart_def decimal.simps)
  have l0: "lastIssued (counter st) = Num (of_nat 0)"
    using fresh by (simp add: lastIssued_def)
  have "number_of (snd (createInvoice e (create_all st cs) uid cName iDate its dType dValue
          cAddress cPhone cSymbol)) (autoId e 0) = Some ''BILL/25/1000''"
    if len: "length (filter committed cs) = 999" for cs
  proof -
    have "0 + length (filter committed cs) \<le> 2 ^ 53" using len by simp
    from create_all_last [OF l0 this]
    have "lastIssued (counter (create_all st cs)) = Num (of_nat 999)" using len by simp
    then have "nextNumber (counter (create_all st cs)) = Num (of_nat (Suc 999))"
      by (rule nextNumber_of_last) simp
    with thousandth show ?thesis
      by (simp only: createInvoice_number [OF ok] year)
  qed
  moreover have "number_of (snd (createInvoice e st uid cName iDate its dType dValue
       cAddress cPhone cSymbol)) (autoId e 0) = Some ''BILL/25/001''"
    using first fresh by (simp add: createInvoice_number [OF ok] year nextNumber_fresh)
  ultimately show ?thesis by blast
qed

theorem createInvoice_first_and_thousandth_witness:
  "number_of (snd (createInvoice (example_env 2025 ''n'') empty_store ''u'' ''Customer''
       ''2025-01-01'' [] Fixed (Num 0) None None None))
     (autoId (example_env 2025 ''n'') 0) = Some ''BILL/25/001'' \<and>
   number_of (snd (createInvoice (example_env 2025 ''n'')
       (create_all empty_store (replicate 999 (example_call 2025 ''x'' None)))
       ''u'' ''Customer'' ''2025-01-01'' [] Fixed (Num 0) None None None))
     (autoId (example_env 2025 ''n'') 0) = Some ''BILL/25/1000''"
  using createInvoice_first_and_thousandth [of empty_store "example_env 2025 ''n''" "''u''"
      "''Customer''" "''2025-01-01''" "[]" Fixed "Num 0" None None None]
  by (simp add: empty_store_def example_env_def committed_def example_call_def)

text \<open>
  Claim C9. When the counter document exists and \<open>Number(..)\<close> of its
  \<open>lastInvoiceNumber\<close> is falsy, that is \<open>NaN\<close> (the field is missing, or holds what
  does not convert to a number) or zero, a committing \<open>createInvoice\<close> does exactly what
  it does without a counter document: the last number counts as 0, the invoice number ends
  in \<open>001\<close>, and the counter is written as 1.
\<close>

theorem createInvoice_counter_not_numeric:
  "counter st = Some d \<Longrightarrow> \<not> truthy (Number (lastInvoiceNumber d)) \<Longrightarrow> txn_fault e = None \<Longrightarrow>
     (let r = createInvoice e st uid cName iDate its dType dValue cAddress cPhone cSymbol
      in r = createInvoice e (st \<lparr> counter := None \<rparr>) uid cName iDate its dType dValue
               cAddress cPhone cSymbol \<and>
         fst r = Inr (autoId e 0) \<and>
         number_of (snd r) (autoId e 0) =
           Some (''BILL/'' @ slice_last 2 (decimal (currentYear e)) @ ''/001'') \<and>
         counter (snd r) = Some \<lparr> lastInvoiceNumber = JNum (Num 1) \<rparr>)"
  apply (simp add: Let_def createInvoice_number createInvoice_counter createInvoice_returns
      nextNumber_falsy)
  apply (simp add: createInvoice_def Let_def nextNumber_falsy)
  apply (simp add: nextNumber_fresh mintNumber_def toString_def toString_pos_def decimal.simps
      padStart_def numeral_2_eq_2)
  done

theorem createInvoice_counter_not_numeric_witness:
  "number_of (snd (createInvoice (example_env 2025 ''n'')
       (owned_store \<lparr> counter := Some \<lparr> lastInvoiceNumber = Undefined \<rparr> \<rparr>)
       ''u'' ''Customer'' ''2025-01-01'' [] Fixed (Num 0) None None None))
     (autoId (example_env 2025 ''n'') 0) = Some ''BILL/25/001'' \<and>
   counter (snd (createInvoice (example_env 2025 ''n'')
       (owned_store \<lparr> counter := Some \<lparr> lastInvoiceNumber = JMap \<rparr> \<rparr>)
       ''u'' ''Customer'' ''2025-01-01'' [] Fixed (Num 0) None None None)) =
     Some \<lparr> lastInvoiceNumber = JNum (Num 1) \<rparr>"
proof -
  let ?e = "example_env 2025 ''n''"
  have ok: "txn_fault ?e = None"
    by (simp add: example_env_def)
  have yr: "slice_last 2 (decimal (currentYear ?e)) = ''25''"
    by (simp add: example_env_def slice_last_def decimal.simps)
  have missing: "counter (owned_store \<lparr> counter := Some \<lparr> lastInvoiceNumber = Undefined \<rparr> \<rparr>) =
      Some \<lparr> lastInvoiceNumber = Undefined \<rparr>"
    and "\<not> truthy (Number (lastInvoiceNumber \<lparr> lastInvoiceNumber = Undefined \<rparr>))"
    by simp_all
  from createInvoice_counter_not_numeric [OF this ok, unfolded Let_def yr]
  have a: "number_of (snd (createInvoice ?e
       (owned_store \<lparr> counter := Some \<lparr> lastInvoiceNumber = Undefined \<rparr> \<rparr>)
       ''u'' ''Customer'' ''2025-01-01'' [] Fixed (Num 0) None None None))
     (autoId ?e 0) = Some (''BILL/'' @ ''25'' @ ''/001'')"
    by blast
  have a_map: "counter (owned_store \<lparr> counter := Some \<lparr> lastInvoiceNumber = JMap \<rparr> \<rparr>) =
      Some \<lparr> lastInvoiceNumber = JMap \<rparr>"
    and "\<not> truthy (Number (lastInvoiceNumber \<lparr> lastInvoiceNumber = JMap \<rparr>))"
    by simp_all
  from createInvoice_counter_not_numeric [OF this ok, unfolded Let_def]
  have b: "counter (snd (createInvoice ?e
       (owned_store \<lparr> counter := Some \<lparr> lastInvoiceNumber = JMap \<rparr> \<rparr>)
       ''u'' ''Customer'' ''2025-01-01'' [] Fixed (Num 0) None None None)) =
     Some \<lparr> lastInvoiceNumber = JNum (Num 1) \<rparr>"
    by blast
  from a b show ?thesis by simp
qed

text \<open>
  Claim C10, as the code has it. The counter document holds \<open>lastInvoiceNumber\<close> and
  nothing about a year: whatever the year of the wall clock, a committing \<open>createInvoice\<close>
  stores the two last digits of that year together with the suffix of the next number,
  which it computes from the counter document alone and writes back. On a counter at
  \<open>K\<close> below \<open>2^53\<close> the next number is \<open>K + 1\<close>: the suffix does not start again with
  a new year (499 is followed by 500 in 2026). At \<open>2^53\<close> the next number is the counter
  itself, and the invoice of the new year repeats the suffix of the old one.
\<close>

theorem createInvoice_no_yearly_reset:
  "txn_fault e = None \<Longrightarrow>
     number_of (snd (createInvoice e st uid cName iDate its dType dValue cAddress cPhone cSymbol))
       (autoId e 0) =
       Some (''BILL/'' @ slice_last 2 (decimal (currentYear e)) @ ''/'' @
             padStart 3 (CHR ''0'') (toString (nextNumber (counter st)))) \<and>
     counter (snd (createInvoice e st uid cName iDate its dType dValue cAddress cPhone cSymbol)) =
       Some \<lparr> lastInvoiceNumber = JNum (nextNumber (counter st)) \<rparr> \<and>
     (\<forall>K. counter st = Some \<lparr> lastInvoiceNumber = JNum (Num (of_nat K)) \<rparr> \<and> K < 2 ^ 53 \<longrightarrow>
        number_of (snd (createInvoice e st uid cName iDate its dType dValue cAddress cPhone
            cSymbol)) (autoId e 0) =
          Some (''BILL/'' @ slice_last 2 (decimal (currentYear e)) @ ''/'' @
                padStart 3 (CHR ''0'') (decimal (Suc K))) \<and>
        counter (snd (createInvoice e st uid cName iDate its dType dValue cAddress cPhone
            cSymbol)) = Some \<lparr> lastInvoiceNumber = JNum (Num (of_nat (Suc K))) \<rparr>)"
proof -
  assume ok: "txn_fault e = None"
  let ?r = "createInvoice e st uid cName iDate its dType dValue cAddress cPhone cSymbol"
  have n: "number_of (snd ?r) (autoId e 0) =
      Some (''BILL/'' @ slice_last 2 (decimal (currentYear e)) @ ''/'' @
            padStart 3 (CHR ''0'') (toString (nextNumber (counter st))))"
    by (simp add: createInvoice_number [OF ok] mintNumber_def)
  have c: "counter (snd ?r) = Some \<lparr> lastInvoiceNumber = JNum (nextNumber (counter st)) \<rparr>"
    by (rule createInvoice_counter [OF ok])
  have "number_of (snd ?r) (autoId e 0) =
          Some (''BILL/'' @ slice_last 2 (decimal (currentYear e)) @ ''/'' @
                padStart 3 (CHR ''0'') (decimal (Suc K))) \<and>
        counter (snd ?r) = Some \<lparr> lastInvoiceNumber = JNum (Num (of_nat (Suc K))) \<rparr>"
    if "counter st = Some \<lparr> lastInvoiceNumber = JNum (Num (of_nat K)) \<rparr> \<and> K < 2 ^ 53" for K
  proof -
    from that have nx: "nextNumber (counter st) = Num (of_nat (Suc K))"
      by (simp add: nextNumber_nat)
    from that have "Suc K \<le> 2 ^ 53" by simp
    then have "toString (Num (of_nat (Suc K))) = decimal (Suc K)" by (rule toString_nat)
    with n c nx show ?thesis by simp
  qed
  with n c show ?thesis by blast
qed

theorem createInvoice_no_yearly_reset_witness:
  "number_of (snd (createInvoice (example_env 2026 ''n'')
       (owned_store \<lparr> counter := Some \<lparr> lastInvoiceNumber = JNum (Num 499) \<rparr> \<rparr>)
       ''u'' ''Customer'' ''2026-01-01'' [] Fixed (Num 0) None None None))
     (autoId (example_env 2026 ''n'') 0) = Some ''BILL/26/500''"
proof -
  let ?e = "example_env 2026 ''n''"
  let ?st = "owned_store \<lparr> counter := Some \<lparr> lastInvoiceNumber = JNum (Num 499) \<rparr> \<rparr>"
  have ok: "txn_fault ?e = None" by (simp add: example_env_def)
  have k: "counter ?st = Some \<lparr> lastInvoiceNumber = JNum (Num (of_nat 499)) \<rparr> \<and> (499::nat) < 2 ^ 53"
    by simp
  have yr: "slice_last 2 (decimal (currentYear ?e)) = ''26''"
    by (simp add: example_env_def slice_last_def decimal.simps)
  from createInvoice_no_yearly_reset [OF ok, of ?st "''u''" "''Customer''" "''2026-01-01''"
      "[]" Fixed "Num 0" None None None] k
  have "number_of (snd (createInvoice ?e ?st ''u'' ''Customer'' ''2026-01-01'' [] Fixed (Num 0)
      None None None)) (autoId ?e 0) =
    Some (''BILL/'' @ slice_last 2 (decimal (currentYear ?e)) @ ''/'' @
          padStart 3 (CHR ''0'') (decimal (Suc 499)))"
    by blast
  then show ?thesis unfolding yr by (simp add: padStart_def decimal.simps)
qed

theorem createInvoice_stalled_suffix:
  "number_of (snd (createInvoice (example_env 2026 ''n'') full_store
       ''u'' ''Customer'' ''2026-01-01'' [] Fixed (Num 0) None None None))
     (autoId (example_env 2026 ''n'') 0) = Some ''BILL/26/9007199254740992'' \<and>
   counter (snd (createInvoice (example_env 2026 ''n'') full_store
       ''u'' ''Customer'' ''2026-01-01'' [] Fixed (Num 0) None None None)) = counter full_store \<and>
   counter full_store = Some \<lparr> lastInvoiceNumber = JNum (Num 9007199254740992) \<rparr>"
proof -
  let ?e = "example_env 2026 ''n''"
  have ok: "txn_fault ?e = None" by (simp add: example_env_def)
  have c0: "counter full_store = Some \<lparr> lastInvoiceNumber = JNum (Num 9007199254740992) \<rparr>"
    by (simp add: full_store_def)
  have "(9007199254740992::nat) \<le> 2 ^ 53" by simp
  from mintNumber_nat [OF this, of 2026]
  have mint: "mintNumber 2026 (Num 9007199254740992) = ''BILL/26/9007199254740992''"
    by (simp add: slice_last_def padStart_def decimal.simps)
  have "currentYear ?e = 2026" by (simp add: example_env_def)
  then show ?thesis
    by (simp add: createInvoice_number [OF ok] createInvoice_counter [OF ok] c0
        nextNumber_stalls mint)
qed

section \<open>Amounts\<close>

lemma calc_subTotal_eq:
  "calc_subTotal (calculatedItems its) =
     foldl js_add (Num 0)
       (map (\<lambda>it. js_mul (js_or (Number (quantity it)) (Num 0)) (js_or (Number (price it)) (Num 0))) its)"
  by (simp add: calc_subTotal_def calculatedItems_def foldl_map)

lemma calculatedItems_total:
  "ci \<in> set (calculatedItems its) \<Longrightarrow> total ci = js_mul (quantity ci) (price ci)"
  by (auto simp: calculatedItems_def)

lemma set_items_other:
  "k \<notin> ids ` {Suc n ..< Suc n + length cs} \<Longrightarrow>
     map_of (fold (\<lambda>(i, it). set_doc (ids (Suc i)) it) (enumerate n cs) ds) k = map_of ds k"
proof (induction cs arbitrary: n ds)
  case Nil
  show ?case by simp
next
  case (Cons c cs)
  have "k \<noteq> ids (Suc n)" using Cons.prems by auto
  moreover have "k \<notin> ids ` {Suc (Suc n) ..< Suc (Suc n) + length cs}" using Cons.prems by auto
  ultimately show ?case using Cons.IH [of "Suc n"] by (simp add: map_of_set_doc)
qed

lemma set_items_stored:
  "inj_on ids {Suc n ..< Suc n + length cs} \<Longrightarrow> i < length cs \<Longrightarrow>
     map_of (fold (\<lambda>(i, it). set_doc (ids (Suc i)) it) (enumerate n cs) ds) (ids (Suc (n + i)))
       = Some (cs ! i)"
proof (induction cs arbitrary: n ds i)
  case Nil
  then show ?case by simp
next
  case (Cons c cs)
  show ?case
  proof (cases i)
    case 0
    have "ids (Suc n) \<notin> ids ` {Suc (Suc n) ..< Suc (Suc n) + length cs}"
    proof
      assume "ids (Suc n) \<in> ids ` {Suc (Suc n) ..< Suc (Suc n) + length cs}"
      then obtain j where j: "j \<in> {Suc (Suc n) ..< Suc (Suc n) + length cs}" "ids (Suc n) = ids j" by auto
      with Cons.prems(1) have "Suc n = j" by (auto dest!: inj_onD [where x = "Suc n" and y = j])
      with j show False by simp
    qed
    then show ?thesis using 0 by (simp add: set_items_other map_of_set_doc)
  next
    case (Suc j)
    have "inj_on ids {Suc (Suc n) ..< Suc (Suc n) + length cs}"
      using Cons.prems(1) by (rule inj_on_subset) auto
    moreover have "j < length cs" using Cons.prems(2) Suc by simp
    ultimately show ?thesis using Cons.IH [of "Suc n" j] Suc by simp
  qed
qed

lemma createInvoice_items:
  "txn_fault e = None \<Longrightarrow> inj_on (autoId e) {1 ..< Suc (length its)} \<Longrightarrow> i < length its \<Longrightarrow>
     map_of (items (snd (createInvoice e st uid cName iDate its dType dValue cAddress cPhone cSymbol))
       (autoId e 0)) (autoId e (Suc i)) = Some (calculatedItems its ! i)"
  using set_items_stored [of "autoId e" 0 "calculatedItems its" i "items st (autoId e 0)"]
  by (simp add: createInvoice_def Let_def set_items_def calculatedItems_def)

text \<open>The arithmetic of the scenario, and of a discount of 7 per cent on 100.\<close>

lemma ten_per_cent: "js_div100 (Num 10) = Num (3602879701896397 / 36028797018963968)"
proof -
  have "round_double (1 / 10) = Num (of_int 7205759403792794 * pow2 (- 4 - 52))"
    by (rule round_double_nearest) (simp_all add: pow2_def)
  then show ?thesis by (simp add: pow2_def)
qed

lemma ten_per_cent_of_250:
  "js_mul (Num 250) (Num (3602879701896397 / 36028797018963968)) = Num 25"
proof -
  have "round_double (250 * (3602879701896397 / 36028797018963968)) =
      Num (of_int 7036874417766400 * pow2 (4 - 52))"
    by (rule round_double_nearest) (simp_all add: pow2_def)
  then show ?thesis by (simp add: pow2_def)
qed

lemma seven_per_cent: "js_div100 (Num 7) = Num (1261007895663739 / 18014398509481984)"
proof -
  have "round_double (7 / 100) = Num (of_int 5044031582654956 * pow2 (- 4 - 52))"
    by (rule round_double_nearest) (simp_all add: pow2_def)
  then show ?thesis by (simp add: pow2_def)
qed

lemma seven_per_cent_of_100:
  "js_mul (Num 100) (Num (1261007895663739 / 18014398509481984)) =
     Num (7881299347898369 / 1125899906842624)"
proof -
  have "round_double (100 * (1261007895663739 / 18014398509481984)) =
      Num (of_int 7881299347898369 * pow2 (2 - 52))"
    by (rule round_double_nearest) (simp_all add: pow2_def)
  then show ?thesis by (simp add: pow2_def)
qed

text \<open>The sum of the doubles nearest to 0.1 and 0.2 is 0.30000000000000004.\<close>

lemma fifth: "js_div100 (Num 20) = Num (3602879701896397 / 18014398509481984)"
proof -
  have "round_double (1 / 5) = Num (of_int 7205759403792794 * pow2 (- 3 - 52))"
    by (rule round_double_nearest) (simp_all add: pow2_def)
  then show ?thesis by (simp add: pow2_def)
qed

lemma tenth_plus_fifth:
  "js_add (js_div100 (Num 10)) (js_div100 (Num 20)) =
     Num (1351079888211149 / 4503599627370496)"
proof -
  let ?x = "3602879701896397 / 36028797018963968 + 3602879701896397 / 18014398509481984 :: rat"
  have e: "expo ?x = - 2"
    by (rule expo_eq) (simp_all add: pow2_def)
  have f: "\<lfloor>10808639105689191 / 2 :: rat\<rfloor> = 5404319552844595"
    by (rule floor_unique) simp_all
  have "round_double ?x = Num (1351079888211149 / 4503599627370496)"
    using e by (simp add: round_double_def Let_def pow2_def round_half_even_def f)
  then show ?thesis by (simp only: ten_per_cent fifth js_add.simps)
qed

lemma scenario_subTotal:
  "calc_subTotal (calculatedItems [example_item 2 100, example_item 1 50]) = Num 250"
  by (simp add: calc_subTotal_def calculatedItems_def example_item_def js_or_def
      round_double_numeral)

lemma scenario_discountAmount: "calc_discountAmount Percentage (Num 10) (Num 250) = Num 25"
  by (simp only: calc_discountAmount_def ten_per_cent ten_per_cent_of_250 simp_thms if_True)

lemma scenario_grandTotal: "calc_grandTotal (Num 250) (Num 25) = Num 225"
  by (simp add: calc_grandTotal_def js_sub_def round_double_numeral)

lemma seven_subTotal: "calc_subTotal (calculatedItems [example_item 1 100]) = Num 100"
  by (simp add: calc_subTotal_def calculatedItems_def example_item_def js_or_def
      round_double_numeral)

lemma seven_discountAmount:
  "calc_discountAmount Percentage (Num 7) (Num 100) = Num (7881299347898369 / 1125899906842624)"
  by (simp only: calc_discountAmount_def seven_per_cent seven_per_cent_of_100 simp_thms if_True)

lemma createInvoice_amounts:
  "txn_fault e = None \<Longrightarrow>
     map_option (\<lambda>h. (subTotal h, discountValue h, discountAmount h, grandTotal h))
       (map_of (invoices (snd (createInvoice e st uid cName iDate its dType dValue
          cAddress cPhone cSymbol))) (autoId e 0)) =
     Some (calc_subTotal (calculatedItems its), dValue,
           calc_discountAmount dType dValue (calc_subTotal (calculatedItems its)),
           calc_grandTotal (calc_subTotal (calculatedItems its))
             (calc_discountAmount dType dValue (calc_subTotal (calculatedItems its))))"
  using createInvoice_header [of e st uid cName iDate its dType dValue cAddress cPhone cSymbol]
  by auto

text \<open>
  Claim C2, as the code has it. The amounts are doubles, and every sum, product, quotient
  and difference below is the IEEE operation, its exact result rounded to the nearest
  double. The invoice that a committing \<open>createInvoice\<close> stores has as \<open>subTotal\<close> the sum,
  from the left, of the totals of its items, each the product of quantity and price, and
  these are the items stored with it; as \<open>discountAmount\<close> the \<open>discountValue\<close> when the
  discount is fixed and \<open>subTotal * (discountValue / 100)\<close> when it is a percentage; and as
  \<open>grandTotal\<close> the maximum of 0 and \<open>subTotal - discountAmount\<close>. The scenario of the
  specification (2 at 100 and 1 at 50, 10 per cent) gives exactly 250, 25 and 225. As
  identities of decimal amounts the formulas hold up to that rounding only: 7 per cent of
  100 is stored as 7.000000000000001.
\<close>

theorem createInvoice_totals:
  "txn_fault e = None \<Longrightarrow>
     \<exists>h. map_of (invoices (snd (createInvoice e st uid cName iDate its dType dValue
               cAddress cPhone cSymbol))) (autoId e 0) = Some h \<and>
       subTotal h = foldl js_add (Num 0) (map total (calculatedItems its)) \<and>
       (\<forall>ci \<in> set (calculatedItems its). total ci = js_mul (quantity ci) (price ci)) \<and>
       (inj_on (autoId e) {1 ..< Suc (length its)} \<longrightarrow>
          (\<forall>i < length its.
             map_of (items (snd (createInvoice e st uid cName iDate its dType dValue
               cAddress cPhone cSymbol)) (autoId e 0)) (autoId e (Suc i)) =
             Some (calculatedItems its ! i))) \<and>
       discountType h = dType \<and> discountValue h = dValue \<and>
       discountAmount h =
         (if dType = Fixed then dValue else js_mul (subTotal h) (js_div100 dValue)) \<and>
       grandTotal h = Math_max (Num 0) (js_sub (subTotal h) (discountAmount h))"
proof -
  assume ok: "txn_fault e = None"
  from createInvoice_header [OF ok, of st uid cName iDate its dType dValue cAddress cPhone cSymbol]
  obtain h where h:
    "map_of (invoices (snd (createInvoice e st uid cName iDate its dType dValue
               cAddress cPhone cSymbol))) (autoId e 0) = Some h"
    "subTotal h = calc_subTotal (calculatedItems its)"
    "discountType h = dType" "discountValue h = dValue"
    "discountAmount h = calc_discountAmount dType dValue (calc_subTotal (calculatedItems its))"
    "grandTotal h = calc_grandTotal (calc_subTotal (calculatedItems its))
          (calc_discountAmount dType dValue (calc_subTotal (calculatedItems its)))"
    by blast
  have sub: "subTotal h = foldl js_add (Num 0) (map total (calculatedItems its))"
    using h(2) by (simp add: calc_subTotal_def foldl_map)
  have amt: "discountAmount h =
      (if dType = Fixed then dValue else js_mul (subTotal h) (js_div100 dValue))"
    using h(2,5) by (cases dType) (simp_all add: calc_discountAmount_def)
  have grand: "grandTotal h = Math_max (Num 0) (js_sub (subTotal h) (discountAmount h))"
    using h(2,5,6) by (simp add: calc_grandTotal_def)
  have stored: "\<forall>i < length its.
      map_of (items (snd (createInvoice e st uid cName iDate its dType dValue
        cAddress cPhone cSymbol)) (autoId e 0)) (autoId e (Suc i)) =
      Some (calculatedItems its ! i)"
    if "inj_on (autoId e) {1 ..< Suc (length its)}"
    using createInvoice_items [OF ok that] by blast
  show ?thesis
    using h(1,3,4) sub amt grand stored calculatedItems_total by blast
qed

theorem createInvoice_totals_witness:
  "\<exists>h. map_of (invoices (snd (createInvoice (example_env 2025 ''n'') empty_store ''u'' ''Customer''
         ''2025-01-01'' [example_item 2 100, example_item 1 50] Percentage (Num 10) None None None)))
         (autoId (example_env 2025 ''n'') 0) = Some h \<and>
     subTotal h = Num 250 \<and> discountAmount h = Num 25 \<and> grandTotal h = Num 225"
proof -
  have ok: "txn_fault (example_env 2025 ''n'') = None"
    by (simp add: example_env_def)
  have tot: "foldl js_add (Num 0)
      (map total (calculatedItems [example_item 2 100, example_item 1 50])) = Num 250"
    using scenario_subTotal by (simp add: calc_subTotal_def foldl_map)
  from createInvoice_totals [OF ok, of empty_store "''u''" "''Customer''" "''2025-01-01''"
      "[example_item 2 100, example_item 1 50]" Percentage "Num 10" None None None]
  obtain h where h: "map_of (invoices (snd (createInvoice (example_env 2025 ''n'') empty_store ''u'' ''Customer''
         ''2025-01-01'' [example_item 2 100, example_item 1 50] Percentage (Num 10) None None None)))
         (autoId (example_env 2025 ''n'') 0) = Some h"
     "subTotal h = foldl js_add (Num 0) (map total (calculatedItems [example_item 2 100, example_item 1 50]))"
     "discountAmount h = (if Percentage = Fixed then Num 10 else js_mul (subTotal h) (js_div100 (Num 10)))"
     "grandTotal h = Math_max (Num 0) (js_sub (subTotal h) (discountAmount h))"
    by blast
  have s: "subTotal h = Num 250" using h(2) tot by simp
  have a: "discountAmount h = Num 25"
    using h(3) scenario_discountAmount unfolding s
    by (simp only: calc_discountAmount_def discount_type.distinct if_False if_True simp_thms)
  have "grandTotal h = Num 225"
    using h(4) scenario_grandTotal unfolding s a by (simp only: calc_grandTotal_def)
  with h(1) s a show ?thesis by blast
qed

theorem createInvoice_discount_rounded:
  "map_option (\<lambda>h. (subTotal h, discountValue h, discountAmount h, grandTotal h))
     (map_of (invoices (snd (createInvoice (example_env 2025 ''n'') empty_store ''u'' ''Customer''
         ''2025-01-01'' [example_item 1 100] Percentage (Num 7) None None None)))
         (autoId (example_env 2025 ''n'') 0)) =
     Some (Num 100, Num 7, Num (7881299347898369 / 1125899906842624), Num 93) \<and>
   (7881299347898369 / 1125899906842624 :: rat) \<noteq> 100 * 7 / 100"
proof -
  have ok: "txn_fault (example_env 2025 ''n'') = None"
    by (simp add: example_env_def)
  have "round_double (100 - 7881299347898369 / 1125899906842624) =
      Num (of_int 6544293208522752 * pow2 (6 - 52))"
    by (rule round_double_nearest) (simp_all add: pow2_def)
  then have g: "calc_grandTotal (Num 100) (Num (7881299347898369 / 1125899906842624)) = Num 93"
    by (simp add: calc_grandTotal_def js_sub_def pow2_def)
  show ?thesis
    by (simp only: createInvoice_amounts [OF ok] seven_subTotal seven_discountAmount g) simp
qed

lemma js_or_zero_not_negative: "\<not> negative n \<Longrightarrow> \<not> negative (js_or n (Num 0))"
  by (cases n) (simp_all add: js_or_def)

lemma foldl_js_add_not_negative:
  "\<not> negative a \<Longrightarrow> \<forall>n \<in> set ns. \<not> negative n \<Longrightarrow> \<not> negative (foldl js_add a ns)"
proof (induction ns arbitrary: a)
  case Nil
  then show ?case by simp
next
  case (Cons n ns)
  then have "\<not> negative (js_add a n)" by (simp add: js_add_not_negative)
  moreover have "\<forall>n \<in> set ns. \<not> negative n" using Cons.prems by simp
  ultimately show ?case using Cons.IH [of "js_add a n"] by simp
qed

lemma calc_subTotal_not_negative:
  assumes "\<forall>it \<in> set its. \<not> negative (Number (quantity it)) \<and> \<not> negative (Number (price it))"
  shows "\<not> negative (calc_subTotal (calculatedItems its))"
proof -
  have "\<forall>n \<in> set (map (\<lambda>it. js_mul (js_or (Number (quantity it)) (Num 0))
      (js_or (Number (price it)) (Num 0))) its). \<not> negative n"
  proof
    fix n
    assume "n \<in> set (map (\<lambda>it. js_mul (js_or (Number (quantity it)) (Num 0))
      (js_or (Number (price it)) (Num 0))) its)"
    then obtain it where it: "it \<in> set its"
      "n = js_mul (js_or (Number (quantity it)) (Num 0)) (js_or (Number (price it)) (Num 0))"
      by auto
    from it(1) assms have "\<not> negative (js_or (Number (quantity it)) (Num 0))"
      and "\<not> negative (js_or (Number (price it)) (Num 0))"
      by (simp_all add: js_or_zero_not_negative)
    then show "\<not> negative n" unfolding it(2) by (rule js_mul_not_negative)
  qed
  then show ?thesis
    using foldl_js_add_not_negative [of "Num 0"] by (simp add: calc_subTotal_eq)
qed

lemma calc_discountAmount_not_negative:
  "\<not> negative dValue \<Longrightarrow> \<not> negative sub \<Longrightarrow> \<not> negative (calc_discountAmount dType dValue sub)"
  by (simp add: calc_discountAmount_def js_mul_not_negative js_div100_not_negative)

lemma non_negative_not_negative: "non_negative x \<Longrightarrow> \<not> negative x"
  by (cases x) simp_all

text \<open>
  Claim C7, as the code has it. \<open>createInvoice\<close> checks none of its amounts; it only keeps
  \<open>grandTotal\<close> from going below 0. So the stored \<open>grandTotal\<close> is never negative. When
  the caller's \<open>discountValue\<close> is not negative and no item has a negative quantity or
  price, the stored \<open>subTotal\<close>, \<open>discountValue\<close> and \<open>discountAmount\<close> are not negative
  either; and when moreover \<open>discountValue\<close> is a number and the stored \<open>subTotal\<close> and
  \<open>discountAmount\<close> are finite, all four amounts are non-negative. Without the proviso on
  the inputs a negative price and a negative discount are stored as they come; without
  the one on finiteness a product beyond the largest double makes \<open>subTotal\<close> infinite and
  \<open>grandTotal\<close> \<open>NaN\<close>.
\<close>

theorem createInvoice_non_negative:
  "txn_fault e = None \<Longrightarrow>
     \<exists>h. map_of (invoices (snd (createInvoice e st uid cName iDate its dType dValue
               cAddress cPhone cSymbol))) (autoId e 0) = Some h \<and>
       \<not> negative (grandTotal h) \<and>
       ((\<forall>it \<in> set its. \<not> negative (Number (quantity it)) \<and> \<not> negative (Number (price it))) \<and>
        \<not> negative dValue \<longrightarrow>
          \<not> negative (subTotal h) \<and> \<not> negative (discountValue h) \<and>
          \<not> negative (discountAmount h)) \<and>
       ((\<forall>it \<in> set its. \<not> negative (Number (quantity it)) \<and> \<not> negative (Number (price it))) \<and>
        non_negative dValue \<and> isFinite (subTotal h) \<and> isFinite (discountAmount h) \<longrightarrow>
          non_negative (subTotal h) \<and> non_negative (discountValue h) \<and>
          non_negative (discountAmount h) \<and> non_negative (grandTotal h))"
proof -
  assume ok: "txn_fault e = None"
  from createInvoice_header [OF ok, of st uid cName iDate its dType dValue cAddress cPhone cSymbol]
  obtain h where h:
    "map_of (invoices (snd (createInvoice e st uid cName iDate its dType dValue
               cAddress cPhone cSymbol))) (autoId e 0) = Some h"
    "subTotal h = calc_subTotal (calculatedItems its)"
    "discountValue h = dValue"
    "discountAmount h = calc_discountAmount dType dValue (calc_subTotal (calculatedItems its))"
    "grandTotal h = calc_grandTotal (calc_subTotal (calculatedItems its))
          (calc_discountAmount dType dValue (calc_subTotal (calculatedItems its)))"
    by blast
  have g: "\<not> negative (grandTotal h)"
    using h(5) by (simp add: calc_grandTotal_def Math_max_zero_not_negative)
  have nn: "\<not> negative (subTotal h) \<and> \<not> negative (discountValue h) \<and>
          \<not> negative (discountAmount h)"
    if "(\<forall>it \<in> set its. \<not> negative (Number (quantity it)) \<and> \<not> negative (Number (price it))) \<and>
        \<not> negative dValue"
    using that h(2-4)
    by (simp add: calc_subTotal_not_negative calc_discountAmount_not_negative)
  have "non_negative (subTotal h) \<and> non_negative (discountValue h) \<and>
          non_negative (discountAmount h) \<and> non_negative (grandTotal h)"
    if p: "(\<forall>it \<in> set its. \<not> negative (Number (quantity it)) \<and> \<not> negative (Number (price it))) \<and>
        non_negative dValue \<and> isFinite (subTotal h) \<and> isFinite (discountAmount h)"
  proof -
    from p have "\<not> negative dValue" by (simp add: non_negative_not_negative)
    with p nn have n3: "\<not> negative (subTotal h)" "\<not> negative (discountAmount h)" by simp_all
    from p have "js_sub (subTotal h) (discountAmount h) \<noteq> NaN"
      by (simp add: js_sub_finite_not_NaN)
    then have "non_negative (grandTotal h)"
      using h(2,4,5) by (simp add: calc_grandTotal_def Math_max_zero_non_negative)
    with p n3 h(3) show ?thesis by (simp add: not_negative_finite)
  qed
  with h(1) g nn show ?thesis by blast
qed

theorem createInvoice_non_negative_witness:
  "\<exists>h. map_of (invoices (snd (createInvoice (example_env 2025 ''n'') empty_store ''u'' ''Customer''
         ''2025-01-01'' [example_item 2 100, example_item 1 50] Percentage (Num 10) None None None)))
         (autoId (example_env 2025 ''n'') 0) = Some h \<and>
       non_negative (subTotal h) \<and> non_negative (discountValue h) \<and>
       non_negative (discountAmount h) \<and> non_negative (grandTotal h)"
proof -
  let ?r = "createInvoice (example_env 2025 ''n'') empty_store ''u'' ''Customer''
         ''2025-01-01'' [example_item 2 100, example_item 1 50] Percentage (Num 10) None None None"
  have ok: "txn_fault (example_env 2025 ''n'') = None"
    by (simp add: example_env_def)
  have inputs: "(\<forall>it \<in> set [example_item 2 100, example_item 1 50].
      \<not> negative (Number (quantity it)) \<and> \<not> negative (Number (price it))) \<and> non_negative (Num 10)"
    by (simp add: example_item_def)
  have amounts: "map_option (\<lambda>h. (subTotal h, discountValue h, discountAmount h, grandTotal h))
      (map_of (invoices (snd ?r)) (autoId (example_env 2025 ''n'') 0)) =
      Some (Num 250, Num 10, Num 25, Num 225)"
    by (simp only: createInvoice_amounts [OF ok] scenario_subTotal scenario_discountAmount
        scenario_grandTotal)
  from createInvoice_non_negative [OF ok, of empty_store "''u''" "''Customer''" "''2025-01-01''"
      "[example_item 2 100, example_item 1 50]" Percentage "Num 10" None None None]
  obtain h where h: "map_of (invoices (snd ?r)) (autoId (example_env 2025 ''n'') 0) = Some h"
    "(\<forall>it \<in> set [example_item 2 100, example_item 1 50].
        \<not> negative (Number (quantity it)) \<and> \<not> negative (Number (price it))) \<and>
      non_negative (Num 10) \<and> isFinite (subTotal h) \<and> isFinite (discountAmount h) \<longrightarrow>
        non_negative (subTotal h) \<and> non_negative (discountValue h) \<and>
        non_negative (discountAmount h) \<and> non_negative (grandTotal h)"
    by blast
  from amounts h(1) have "isFinite (subTotal h)" "isFinite (discountAmount h)" by simp_all
  with inputs h show ?thesis by blast
qed

theorem createInvoice_negative_amounts_stored:
  "map_option (\<lambda>h. (subTotal h, discountValue h, discountAmount h, grandTotal h))
     (map_of (invoices (snd (createInvoice (example_env 2025 ''n'') empty_store ''u'' ''Customer''
         ''2025-01-01'' [example_item 1 (- 10)] Fixed (Num (- 5)) None None None)))
         (autoId (example_env 2025 ''n'') 0)) = Some (Num (- 10), Num (- 5), Num (- 5), Num 0) \<and>
   \<not> non_negative (Num (- 10)) \<and> \<not> non_negative (Num (- 5))"
proof -
  have ok: "txn_fault (example_env 2025 ''n'') = None"
    by (simp add: example_env_def)
  have s: "calc_subTotal (calculatedItems [example_item 1 (- 10)]) = Num (- 10)"
    by (simp add: calc_subTotal_def calculatedItems_def example_item_def js_or_def
        round_double_minus round_double_numeral)
  have a: "calc_discountAmount Fixed (Num (- 5)) (Num (- 10)) = Num (- 5)"
    by (simp add: calc_discountAmount_def)
  have g: "calc_grandTotal (Num (- 10)) (Num (- 5)) = Num 0"
    by (simp add: calc_grandTotal_def js_sub_def round_double_minus round_double_numeral)
  show ?thesis
    by (simp only: createInvoice_amounts [OF ok] s a g) simp
qed

text \<open>Ten items at a price of \<open>10^308\<close> with a discount of 10 per cent.\<close>

lemma createInvoice_overflow:
  "map_option (\<lambda>h. (subTotal h, discountValue h, discountAmount h, grandTotal h))
     (map_of (invoices (snd (createInvoice (example_env 2025 ''n'') empty_store ''u'' ''Customer''
         ''2025-01-01'' [example_item 10 (10 ^ 308)] Percentage (Num 10) None None None)))
         (autoId (example_env 2025 ''n'') 0)) = Some (PosInf, Num 10, PosInf, NaN)"
proof -
  have ok: "txn_fault (example_env 2025 ''n'') = None"
    by (simp add: example_env_def)
  have "round_double (10 * 10 ^ 308) = PosInf"
    by (rule round_double_overflow) simp
  then have s: "calc_subTotal (calculatedItems [example_item 10 (10 ^ 308)]) = PosInf"
    by (simp add: calc_subTotal_def calculatedItems_def example_item_def js_or_def)
  have a: "calc_discountAmount Percentage (Num 10) PosInf = PosInf"
    by (simp only: calc_discountAmount_def ten_per_cent simp_thms if_True) simp
  have g: "calc_grandTotal PosInf PosInf = NaN"
    by (simp add: calc_grandTotal_def js_sub_def)
  show ?thesis
    by (simp only: createInvoice_amounts [OF ok] s a g)
qed

section \<open>Renaming\<close>

text \<open>
  Claim C3 asks \<open>updateInvoiceNumber\<close> to fail when another invoice of the caller carries
  the new number. The check looks at the first match of the query only: when the invoice
  to rename carries the number itself and comes first, a second invoice of the same owner
  with that number goes unnoticed, and the call succeeds.
\<close>

theorem updateInvoiceNumber_misses_duplicate:
  "updateInvoiceNumber no_update_faults twin_store ''a'' ''u'' ''BILL/25/002'' = (Inr (), twin_store) \<and>
   map_option (\<lambda>h. (userId h, invoiceNumber h)) (map_of (invoices twin_store) ''b'') =
     Some (''u'', ''BILL/25/002'')"
  by (simp add: updateInvoiceNumber_def no_update_faults_def twin_store_def getDoc_def getDocs_def
      where_userId_def where_invoiceNumber_def update_doc_def example_header_def)

text \<open>
  Such a state comes about through the service alone: rename the first invoice to the
  number that the counter issues next, then create an invoice.
\<close>

lemma updateInvoiceNumber_duplicate_reachable:
  "(let st1 = snd (createInvoice (example_env 2025 ''a'') empty_store ''u'' ''Customer''
                ''2025-01-01'' [] Fixed (Num 0) None None None);
        st2 = snd (updateInvoiceNumber no_update_faults st1 ''a0'' ''u'' ''BILL/25/002'');
        st3 = snd (createInvoice (example_env 2025 ''b'') st2 ''u'' ''Customer''
                ''2025-01-02'' [] Fixed (Num 0) None None None)
    in map_option (\<lambda>h. (userId h, invoiceNumber h)) (map_of (invoices st3) ''a0'') = Some (''u'', ''BILL/25/002'') \<and>
       map_option (\<lambda>h. (userId h, invoiceNumber h)) (map_of (invoices st3) ''b0'') = Some (''u'', ''BILL/25/002'') \<and>
       fst (updateInvoiceNumber no_update_faults st3 ''a0'' ''u'' ''BILL/25/002'') = Inr ())"
proof -
  have "(1::nat) \<le> 2 ^ 53" and "(2::nat) \<le> 2 ^ 53" by simp_all
  from mintNumber_nat [OF this(1), of 2025] mintNumber_nat [OF this(2), of 2025]
  have mint: "mintNumber 2025 (Num 1) = ''BILL/25/001''"
    "mintNumber 2025 (Num 2) = ''BILL/25/002''"
    by (simp_all add: slice_last_def padStart_def decimal.simps numeral_2_eq_2)
  have two: "nextNumber (Some \<lparr> lastInvoiceNumber = JNum (Num 1) \<rparr>) = Num 2"
    using nextNumber_nat [of 1] by simp
  show ?thesis
    by (simp add: createInvoice_def Let_def example_env_def empty_store_def decimal.simps
        updateInvoiceNumber_def no_update_faults_def getDoc_def getDocs_def
        where_userId_def where_invoiceNumber_def update_doc_def nextNumber_fresh two mint
        set_items_def calculatedItems_def)
qed

section \<open>Listing\<close>

lemma sorted_orderBy:
  "sorted (rev (map (\<lambda>d. createdAt (snd d)) (orderBy_createdAt_desc ds)))"
proof -
  let ?g = "\<lambda>d::doc_id \<times> invoice. (createdAt (snd d), fst d)"
  have "sorted (map ?g (sort_key ?g ds))" by (rule sorted_sort_key)
  then have "sorted_wrt (\<lambda>a b. ?g a \<le> ?g b) (sort_key ?g ds)"
    by (simp add: sorted_map)
  then have "sorted_wrt (\<lambda>a b. createdAt (snd a) \<le> createdAt (snd b)) (sort_key ?g ds)"
    by (rule sorted_wrt_mono_rel [rotated]) auto
  then show ?thesis
    by (simp add: orderBy_createdAt_desc_def rev_map [symmetric] sorted_map)
qed

lemma mset_orderBy: "mset (orderBy_createdAt_desc ds) = mset ds"
  by (simp add: orderBy_createdAt_desc_def)

lemma sorted_newest_first:
  "sorted (rev (map (\<lambda>d. createdAt (snd d)) (sort_newest_first ds)))"
proof -
  have "sorted (map (\<lambda>d. - createdAt (snd d)) (sort_newest_first ds))"
    unfolding sort_newest_first_def by (rule sorted_sort_key)
  then have "sorted_wrt (\<lambda>a b. createdAt (snd b) \<le> createdAt (snd a)) (sort_newest_first ds)"
    by (simp add: sorted_map)
  then show ?thesis
    by (simp add: rev_map [symmetric] sorted_wrt_rev sorted_wrt_map)
qed

lemma mset_newest_first: "mset (sort_newest_first ds) = mset ds"
  by (simp add: sort_newest_first_def)

lemma filter_same_key:
  "distinct (map f xs) \<Longrightarrow> k \<in> set xs \<Longrightarrow> filter (\<lambda>x. f k = f x) xs = [k]"
proof (induction xs)
  case Nil
  then show ?case by simp
next
  case (Cons x xs)
  show ?case
  proof (cases "k = x")
    case True
    have "filter (\<lambda>y. f x = f y) xs = []"
      using Cons.prems(1) by (auto simp: filter_empty_conv)
    with True show ?thesis by simp
  next
    case False
    with Cons.prems have kx: "k \<in> set xs" by simp
    from Cons.prems(1) have "f x \<notin> f ` set xs" by simp
    with kx have "f k \<noteq> f x" by (metis imageI)
    note kx this
    with Cons show ?thesis by simp
  qed
qed

lemma newest_first_unique:
  assumes "distinct (map (\<lambda>d. createdAt (snd d)) ds)"
    and "mset ys = mset ds"
    and "sorted (rev (map (\<lambda>d. createdAt (snd d)) ys))"
  shows "sort_newest_first ds = ys"
  unfolding sort_newest_first_def
proof (rule properties_for_sort_key)
  show "mset ys = mset ds" by fact
  have dy: "distinct (map (\<lambda>d. createdAt (snd d)) ys)"
    using assms(1,2) by (metis mset_eq_imp_distinct_iff mset_map)
  have dn: "distinct (map (\<lambda>d. - createdAt (snd d)) ds)" "distinct (map (\<lambda>d. - createdAt (snd d)) ys)"
    using assms(1) dy by (simp_all add: distinct_map inj_on_def)
  show "filter (\<lambda>x. - createdAt (snd k) = - createdAt (snd x)) ys =
        filter (\<lambda>x. - createdAt (snd k) = - createdAt (snd x)) ds" if "k \<in> set ys" for k
  proof -
    from that assms(2) have "k \<in> set ds" by (metis mset_eq_setD)
    then show ?thesis
      using filter_same_key [OF dn(1), of k] filter_same_key [OF dn(2), of k] that by simp
  qed
  have "sorted_wrt (\<lambda>a b. createdAt (snd b) \<le> createdAt (snd a)) ys"
    using assms(3) by (simp add: rev_map [symmetric] sorted_wrt_rev sorted_wrt_map)
  then show "sorted (map (\<lambda>d. - createdAt (snd d)) ys)"
    by (simp add: sorted_map)
qed

text \<open>
  Claim C4, as the code has it. When the first query of \<open>getInvoices\<close> fails with the code
  \<open>failed-precondition\<close> (the index is missing) and the second query is answered, the
  call returns exactly the invoices of the owner, by decreasing \<open>createdAt\<close>; this is the
  sequence of the first query whenever no two invoices of the owner have the same
  \<open>createdAt\<close>. When the second query fails too, the error of the first one is thrown.
  Invoices of equal \<open>createdAt\<close> keep the order of the collection in the second path,
  and come in the opposite order from the ordered query.
\<close>

theorem getInvoices_fallback:
  "code err = Some ''failed-precondition'' \<Longrightarrow>
     (\<exists>docs. getInvoices (Some err) None st uid = Inr docs \<and>
        mset docs = mset (filter (\<lambda>d. userId (snd d) = uid) (invoices st)) \<and>
        sorted (rev (map (\<lambda>d. createdAt (snd d)) docs)) \<and>
        (distinct (map (\<lambda>d. createdAt (snd d)) (filter (\<lambda>d. userId (snd d) = uid) (invoices st)))
           \<longrightarrow> getInvoices None None st uid = Inr docs)) \<and>
     getInvoices (Some err) (Some err2) st uid = Inl err"
proof -
  assume c: "code err = Some ''failed-precondition''"
  let ?ds = "where_userId uid (invoices st)"
  have fb: "getInvoices (Some err) None st uid = Inr (sort_newest_first ?ds)"
    using c by (simp add: getInvoices_def getDocs_def)
  have pr: "getInvoices None None st uid = Inr (orderBy_createdAt_desc ?ds)"
    by (simp add: getInvoices_def getDocs_def)
  have orig: "getInvoices (Some err) (Some err2) st uid = Inl err"
    using c by (simp add: getInvoices_def getDocs_def)
  have same: "orderBy_createdAt_desc ?ds = sort_newest_first ?ds"
    if "distinct (map (\<lambda>d. createdAt (snd d)) ?ds)"
    using newest_first_unique [OF that mset_orderBy sorted_orderBy] by simp
  show ?thesis
    using fb pr orig same mset_newest_first [of ?ds] sorted_newest_first [of ?ds]
    by (simp add: where_userId_def)
qed

theorem getInvoices_fallback_witness:
  "getInvoices (Some missing_index) None twin_store ''u'' =
     Inr [(''b'', example_header ''u'' ''BILL/25/002'' 2000),
          (''a'', example_header ''u'' ''BILL/25/002'' 1000)] \<and>
   getInvoices None None twin_store ''u'' = getInvoices (Some missing_index) None twin_store ''u'' \<and>
   getInvoices (Some missing_index) (Some unavailable) twin_store ''u'' = Inl missing_index"
proof -
  have c: "code missing_index = Some ''failed-precondition''"
    by (simp add: missing_index_def)
  have d: "distinct (map (\<lambda>d. createdAt (snd d))
      (filter (\<lambda>d. userId (snd d) = ''u'') (invoices twin_store)))"
    by (simp add: twin_store_def example_header_def)
  have v: "getInvoices (Some missing_index) None twin_store ''u'' =
     Inr [(''b'', example_header ''u'' ''BILL/25/002'' 2000),
          (''a'', example_header ''u'' ''BILL/25/002'' 1000)]"
    by (simp add: getInvoices_def getDocs_def missing_index_def twin_store_def where_userId_def
        sort_newest_first_def example_header_def)
  from getInvoices_fallback [OF c, of twin_store "''u''" unavailable] d v show ?thesis by auto
qed

theorem getInvoices_fallback_tie_order:
  "getInvoices (Some missing_index) None tie_store ''u'' =
     Inr [(''a'', example_header ''u'' ''BILL/25/001'' 1000),
          (''b'', example_header ''u'' ''BILL/25/002'' 1000)] \<and>
   getInvoices None None tie_store ''u'' =
     Inr [(''b'', example_header ''u'' ''BILL/25/002'' 1000),
          (''a'', example_header ''u'' ''BILL/25/001'' 1000)] \<and>
   getInvoices (Some missing_index) None tie_store ''u'' \<noteq> getInvoices None None tie_store ''u''"
  by (simp add: getInvoices_def getDocs_def missing_index_def tie_store_def where_userId_def
      sort_newest_first_def orderBy_createdAt_desc_def example_header_def)

end
